theory Spec2Isabelle
  imports Main "HOL-Library.List_Lexorder"
begin

section \<open>Strings, bytes and outcomes\<close>

text \<open>
  A Python \<open>str\<close> is a sequence of Unicode code points; it is modelled as a list of
  natural numbers. A \<open>bytes\<close> value is a list of numbers below 256.
\<close>

type_synonym ustring = "nat list"
type_synonym byte = nat

definition ustr :: "string \<Rightarrow> ustring" where
  "ustr s = map of_char s"

datatype error =
    UnicodeEncodeError
  | StructError
  | ValueError
  | FileExistsError
  | PermissionError
  | NotADirectoryError
  | ImportError
  | LibraryError
  | OperationalError

text \<open>
  What a call does: it returns a value, raises an exception, or never returns.
\<close>

datatype 'a outcome = Returns 'a | Raises error | Diverges

definition is_surrogate :: "nat \<Rightarrow> bool" where
  "is_surrogate c \<longleftrightarrow> 0xD800 \<le> c \<and> c \<le> 0xDFFF"

definition utf8_char :: "nat \<Rightarrow> byte list" where
  "utf8_char c =
     (if c < 0x80 then [c]
      else if c < 0x800 then [0xC0 + c div 0x40, 0x80 + c mod 0x40]
      else if c < 0x10000 then
        [0xE0 + c div 0x1000, 0x80 + c div 0x40 mod 0x40, 0x80 + c mod 0x40]
      else
        [0xF0 + c div 0x40000, 0x80 + c div 0x1000 mod 0x40, 0x80 + c div 0x40 mod 0x40,
         0x80 + c mod 0x40])"

text \<open>\<open>s.encode('utf-8')\<close>: a lone surrogate cannot be encoded.\<close>

definition encode_utf8 :: "ustring \<Rightarrow> error + byte list" where
  "encode_utf8 s =
     (if list_ex is_surrogate s then Inl UnicodeEncodeError
      else Inr (concat (map utf8_char s)))"

text \<open>The characters \<open>str.isspace\<close> accepts, which \<open>strip\<close> and \<open>rstrip\<close> remove.\<close>

definition is_whitespace :: "nat \<Rightarrow> bool" where
  "is_whitespace c \<longleftrightarrow>
     (0x09 \<le> c \<and> c \<le> 0x0D) \<or> (0x1C \<le> c \<and> c \<le> 0x20) \<or> c = 0x85 \<or> c = 0xA0 \<or>
     c = 0x1680 \<or> (0x2000 \<le> c \<and> c \<le> 0x200A) \<or> c = 0x2028 \<or> c = 0x2029 \<or>
     c = 0x202F \<or> c = 0x205F \<or> c = 0x3000"

definition lstrip :: "ustring \<Rightarrow> ustring" where
  "lstrip s = dropWhile is_whitespace s"

definition rstrip :: "ustring \<Rightarrow> ustring" where
  "rstrip s = rev (dropWhile is_whitespace (rev s))"

definition strip :: "ustring \<Rightarrow> ustring" where
  "strip s = lstrip (rstrip s)"

section \<open>Filename sanitizer\<close>

definition invisible_chars :: ustring where
  "invisible_chars = [0x200B, 0x200C, 0x200D, 0x200E, 0x200F, 0xFEFF, 0x00AD]"

definition reserved_chars :: ustring where
  "reserved_chars = [0x2F, 0x5C, 0x3A, 0x2A, 0x3F, 0x22, 0x3C, 0x3E, 0x7C]"

definition hyphen :: nat where
  "hyphen = 0x2D"

definition ellipsis :: nat where
  "ellipsis = 0x2026"

text \<open>\<open>filename.replace(char, '')\<close> and \<open>filename.replace(char, '-')\<close> for one character.\<close>

definition remove_char :: "nat \<Rightarrow> ustring \<Rightarrow> ustring" where
  "remove_char c s = filter (\<lambda>x. x \<noteq> c) s"

definition replace_char :: "nat \<Rightarrow> ustring \<Rightarrow> ustring" where
  "replace_char c s = map (\<lambda>x. if x = c then hyphen else x) s"

text \<open>
  The loop \<open>while len(filename.encode('utf-8')) > max_bytes: filename = filename[:-1]\<close>.
  \<open>filename[:-1]\<close> of the empty string is the empty string, so the loop need not end.
\<close>

partial_function (option) truncate_loop :: "ustring \<Rightarrow> int \<Rightarrow> (error + ustring) option" where
  "truncate_loop filename max_bytes =
     (case encode_utf8 filename of
        Inl e \<Rightarrow> Some (Inl e)
      | Inr encoded \<Rightarrow>
          if int (length encoded) > max_bytes
          then truncate_loop (butlast filename) max_bytes
          else Some (Inr filename))"

text \<open>
  \<open>sanitize_crate_filename(filename, max_bytes)\<close>. The normalisation
  \<open>unicodedata.normalize('NFC', _)\<close> belongs to the Python library and is the
  parameter \<open>nfc\<close>.
\<close>

definition sanitize_crate_filename ::
  "(ustring \<Rightarrow> ustring) \<Rightarrow> ustring \<Rightarrow> int \<Rightarrow> ustring outcome" where
  "sanitize_crate_filename nfc filename max_bytes =
     (let filename1 = fold remove_char invisible_chars filename;
          filename2 = nfc filename1;
          filename3 = fold replace_char reserved_chars filename2
      in case encode_utf8 filename3 of
           Inl e \<Rightarrow> Raises e
         | Inr encoded \<Rightarrow>
             if int (length encoded) > max_bytes then
               (case truncate_loop filename3 max_bytes of
                  None \<Rightarrow> Diverges
                | Some (Inl e) \<Rightarrow> Raises e
                | Some (Inr filename4) \<Rightarrow> Returns (strip (rstrip filename4 @ [ellipsis])))
             else Returns (strip filename3))"

text \<open>The byte length of a returned name, as \<open>len(name.encode('utf-8'))\<close>.\<close>

definition utf8_length :: "ustring \<Rightarrow> nat" where
  "utf8_length s = length (concat (map utf8_char s))"

definition default_max_bytes :: int where
  "default_max_bytes = 240"

text \<open>
  Calling the sanitizer on its own result, \<open>sanitize(sanitize(x))\<close>: an exception (or
  a call that never returns) in the inner call is what the whole expression does.
\<close>

definition sanitize_twice :: "(ustring \<Rightarrow> ustring) \<Rightarrow> ustring \<Rightarrow> int \<Rightarrow> ustring outcome" where
  "sanitize_twice nfc filename max_bytes =
     (case sanitize_crate_filename nfc filename max_bytes of
        Returns r \<Rightarrow> sanitize_crate_filename nfc r max_bytes
      | Raises e \<Rightarrow> Raises e
      | Diverges \<Rightarrow> Diverges)"

text \<open>
  Facts of Unicode normalisation form C that the sanitizer relies on, stated for the
  parameter: normalising is idempotent and introduces none of the invisible characters;
  a normalised string stays normalised when reserved ASCII characters are replaced by a
  hyphen, when it is cut to a prefix, when leading whitespace is dropped, and when the
  ellipsis (a starter that takes part in no composition) is appended.
\<close>

definition nfc_laws :: "(ustring \<Rightarrow> ustring) \<Rightarrow> bool" where
  "nfc_laws nfc \<longleftrightarrow>
     (\<forall>s. nfc (nfc s) = nfc s) \<and>
     (\<forall>s. set s \<inter> set invisible_chars = {} \<longrightarrow> set (nfc s) \<inter> set invisible_chars = {}) \<and>
     (\<forall>s. nfc s = s \<longrightarrow>
          nfc (fold replace_char reserved_chars s) = fold replace_char reserved_chars s) \<and>
     (\<forall>s n. nfc s = s \<longrightarrow> nfc (take n s) = take n s) \<and>
     (\<forall>s. nfc s = s \<longrightarrow> nfc (lstrip s) = lstrip s) \<and>
     (\<forall>s. nfc s = s \<longrightarrow> nfc (s @ [ellipsis]) = s @ [ellipsis])"

text \<open>
  A name the first three steps of the sanitizer leave unchanged: free of invisible,
  reserved and surrogate characters, and normalised.
\<close>

definition is_clean_name :: "(ustring \<Rightarrow> ustring) \<Rightarrow> ustring \<Rightarrow> bool" where
  "is_clean_name nfc s \<longleftrightarrow> set s \<inter> set invisible_chars = {} \<and> set s \<inter> set reserved_chars = {} \<and>
     \<not> list_ex is_surrogate s \<and> nfc s = s"


section \<open>Paths and plans\<close>

text \<open>
  A \<open>pathlib\<close> path on a POSIX system: whether it is anchored at the root, and its
  components. \<open>str_path\<close> is \<open>str(p)\<close>, \<open>parts\<close> is \<open>p.parts\<close>.
\<close>

datatype path = Path (is_absolute: bool) (names: "ustring list")

definition slash :: nat where
  "slash = 0x2F"

fun join :: "ustring \<Rightarrow> ustring list \<Rightarrow> ustring" where
  "join sep [] = []"
| "join sep [x] = x"
| "join sep (x # y # ys) = x @ sep @ join sep (y # ys)"

definition str_path :: "path \<Rightarrow> ustring" where
  "str_path p =
     (if is_absolute p then slash # join [slash] (names p)
      else if names p = [] then ustr ''.'' else join [slash] (names p))"

definition parts :: "path \<Rightarrow> ustring list" where
  "parts p = (if is_absolute p then [slash] # names p else names p)"



text \<open>\<open>track.relative_to(root)\<close> raises \<open>ValueError\<close> unless \<open>root\<close> is an ancestor.\<close>

definition relative_to :: "path \<Rightarrow> path \<Rightarrow> path outcome" where
  "relative_to p root =
     (if is_absolute p = is_absolute root \<and> take (length (names root)) (names p) = names root
      then Returns (Path False (drop (length (names root)) (names p)))
      else Raises ValueError)"

text \<open>The components of a well-formed path are not empty and contain no separator.\<close>

definition well_formed :: "path \<Rightarrow> bool" where
  "well_formed p \<longleftrightarrow> list_all (\<lambda>n. n \<noteq> [] \<and> \<not> list_ex (\<lambda>c. c = slash) n) (names p)"

text \<open>
  The dataclass \<open>CratePlan\<close>; its fields \<open>name\<close>, \<open>path\<close>, \<open>parent_name\<close>,
  \<open>tracks\<close> and \<open>children\<close> are read with the selectors \<open>plan_name\<close>, ...
\<close>

datatype crate_plan =
  CratePlan (plan_name: ustring) (plan_path: path) (plan_parent_name: "ustring option")
    (plan_tracks: "path list") (plan_children: "crate_plan list")

record sync_plan =
  music_root :: path
  serato_root :: path
  crates :: "crate_plan list"
  total_tracks :: nat
  total_crates :: nat
  existing_crates :: "ustring list"

section \<open>Path resolver\<close>

text \<open>\<open>s.lstrip("/")\<close> removes every leading separator.\<close>

definition lstrip_slash :: "ustring \<Rightarrow> ustring" where
  "lstrip_slash s = dropWhile (\<lambda>c. c = slash) s"

text \<open>
  \<open>resolve_track_path(track)\<close>, a closure over the plan's music root and the path
  mode. \<open>Path.resolve()\<close> depends on the file system (working directory, symbolic
  links) and is the parameter \<open>resolve\<close>.
\<close>

definition resolve_track_path ::
  "(path \<Rightarrow> path) \<Rightarrow> path \<Rightarrow> ustring \<Rightarrow> path \<Rightarrow> ustring" where
  "resolve_track_path resolve root path_mode track =
     (if path_mode = ustr ''relative-to-music-root'' then
        (case relative_to track root of
           Returns rel \<Rightarrow> str_path rel
         | _ \<Rightarrow> lstrip_slash (str_path (resolve track)))
      else if path_mode = ustr ''relative-to-volume-root'' then
        (let resolved = resolve track; ps = parts resolved
         in if length ps > 2 \<and> ps ! 1 = ustr ''Volumes'' then join [slash] (drop 3 ps)
            else lstrip_slash (str_path resolved))
      else lstrip_slash (str_path (resolve track)))"

section \<open>Binary crate codec\<close>

definition utf16be_char :: "nat \<Rightarrow> byte list" where
  "utf16be_char c =
     (if c < 0x10000 then [c div 0x100, c mod 0x100]
      else
        (let v = c - 0x10000; hi = 0xD800 + v div 0x400; lo = 0xDC00 + v mod 0x400
         in [hi div 0x100, hi mod 0x100, lo div 0x100, lo mod 0x100]))"

definition utf16be :: "ustring \<Rightarrow> byte list" where
  "utf16be s = concat (map utf16be_char s)"

text \<open>\<open>s.encode('utf-16-be')\<close>: a lone surrogate cannot be encoded.\<close>

definition encode_string :: "ustring \<Rightarrow> byte list outcome" where
  "encode_string s =
     (if list_ex is_surrogate s then Raises UnicodeEncodeError else Returns (utf16be s))"

definition be32 :: "nat \<Rightarrow> byte list" where
  "be32 n = [n div 0x1000000 mod 0x100, n div 0x10000 mod 0x100, n div 0x100 mod 0x100,
             n mod 0x100]"

text \<open>\<open>struct.pack('>I', n)\<close> raises \<open>struct.error\<close> when \<open>n\<close> needs more than 32 bits.\<close>

definition struct_pack_I :: "nat \<Rightarrow> byte list outcome" where
  "struct_pack_I n = (if n < 0x100000000 then Returns (be32 n) else Raises StructError)"

text \<open>\<open>tag_name.encode('ascii')\<close>.\<close>

definition encode_ascii :: "ustring \<Rightarrow> byte list outcome" where
  "encode_ascii s = (if list_all (\<lambda>c. c < 0x80) s then Returns s else Raises UnicodeEncodeError)"

definition make_tag :: "ustring \<Rightarrow> byte list \<Rightarrow> byte list outcome" where
  "make_tag tag_name data =
     (case encode_ascii tag_name of
        Returns tag_bytes \<Rightarrow>
          (case struct_pack_I (length data) of
             Returns len_bytes \<Rightarrow> Returns (tag_bytes @ len_bytes @ data)
           | Raises e \<Rightarrow> Raises e
           | Diverges \<Rightarrow> Diverges)
      | Raises e \<Rightarrow> Raises e
      | Diverges \<Rightarrow> Diverges)"

definition version_string :: ustring where
  "version_string = ustr ''1.0/Serato ScratchLive Crate''"

text \<open>The loop over \<open>crate_plan.tracks\<close>, appending one chunk per track to \<open>chunks\<close>.\<close>

fun track_chunks ::
  "(path \<Rightarrow> ustring) \<Rightarrow> path list \<Rightarrow> byte list list \<Rightarrow> byte list list outcome" where
  "track_chunks resolve_path [] chunks = Returns chunks"
| "track_chunks resolve_path (track # rest) chunks =
     (let track_path = resolve_path track
      in case encode_string track_path of
           Returns path_data \<Rightarrow>
             (case make_tag (ustr ''ptrk'') path_data of
                Returns ptrk_tag \<Rightarrow>
                  (case make_tag (ustr ''otrk'') ptrk_tag of
                     Returns otrk_tag \<Rightarrow> track_chunks resolve_path rest (chunks @ [otrk_tag])
                   | Raises e \<Rightarrow> Raises e
                   | Diverges \<Rightarrow> Diverges)
              | Raises e \<Rightarrow> Raises e
              | Diverges \<Rightarrow> Diverges)
         | Raises e \<Rightarrow> Raises e
         | Diverges \<Rightarrow> Diverges)"

text \<open>
  \<open>write_crate_binary(crate_file, crate_plan, resolve_path)\<close>: the result is the
  content of \<open>crate_file\<close> after the call. The file is opened only when all chunks are
  built, so an exception leaves no file behind.
\<close>

definition write_crate_binary :: "crate_plan \<Rightarrow> (path \<Rightarrow> ustring) \<Rightarrow> byte list outcome" where
  "write_crate_binary crate_plan resolve_path =
     (case encode_string version_string of
        Returns version_data \<Rightarrow>
          (case make_tag (ustr ''vrsn'') version_data of
             Returns vrsn_tag \<Rightarrow>
               (case track_chunks resolve_path (plan_tracks crate_plan) [vrsn_tag] of
                  Returns chunks \<Rightarrow> Returns (fold (\<lambda>chunk file. file @ chunk) chunks [])
                | Raises e \<Rightarrow> Raises e
                | Diverges \<Rightarrow> Diverges)
           | Raises e \<Rightarrow> Raises e
           | Diverges \<Rightarrow> Diverges)
      | Raises e \<Rightarrow> Raises e
      | Diverges \<Rightarrow> Diverges)"

text \<open>
  The layout as the specification words it: a chunk is a 4-byte ASCII tag, the 4-byte
  big-endian length of the payload, and the payload; the file is the version chunk
  followed by one \<open>otrk\<close> chunk per track, each holding exactly one \<open>ptrk\<close> chunk
  with the path in UTF-16 big-endian.
\<close>

definition spec_chunk :: "ustring \<Rightarrow> byte list \<Rightarrow> byte list" where
  "spec_chunk tag payload = tag @ be32 (length payload) @ payload"

definition spec_crate_encoding :: "ustring list \<Rightarrow> byte list" where
  "spec_crate_encoding track_paths =
     spec_chunk (ustr ''vrsn'') (utf16be version_string) @
     concat (map (\<lambda>p. spec_chunk (ustr ''otrk'') (spec_chunk (ustr ''ptrk'') (utf16be p)))
               track_paths)"

text \<open>A path string the codec can encode: no lone surrogate, and a chunk below 4 GiB.\<close>

definition encodable :: "ustring \<Rightarrow> bool" where
  "encodable s \<longleftrightarrow> \<not> list_ex is_surrogate s \<and> length (utf16be s) + 8 < 0x100000000"

section \<open>Tree builder\<close>























section \<open>Relational writer\<close>

text \<open>
  A row of the \<open>container\<close> table, and the database file: the \<open>container\<close> rows in
  rowid order and the \<open>revision\<close> column of the rows of the \<open>serato\<close> table.
\<close>

record container_row =
  row_id :: int
  row_revision :: int
  row_parent_id :: int
  row_name :: ustring
  row_type :: int
  row_list_order :: int
  row_time_added :: int
  row_expanded :: int
  row_portable_id :: ustring

record database =
  container :: "container_row list"
  serato :: "int list"

text \<open>
  The state of one run: the tables as the open transaction sees them, the number of
  database operations done so far, and the three \<open>nonlocal\<close> counters of the source.
\<close>

record writer_state =
  db :: database
  executed :: nat
  crates_created :: nat
  crates_skipped :: nat
  revision :: int

text \<open>
  A database operation (\<open>connect\<close>, \<open>cursor.execute\<close>, \<open>commit\<close>) can raise: the
  tables are missing, the file is locked by the running application, a constraint of
  the schema is violated. \<open>faults k\<close> says whether the \<open>k\<close>-th operation of the run
  raises.
\<close>

definition cursor_execute :: "(nat \<Rightarrow> bool) \<Rightarrow> writer_state \<Rightarrow> error + writer_state" where
  "cursor_execute faults st =
     (if faults (executed st) then Inl OperationalError
      else Inr (st\<lparr>executed := Suc (executed st)\<rparr>))"

text \<open>\<open>SELECT id FROM container WHERE parent_id = ? AND name = ? AND type = 1\<close>, first row.\<close>

definition select_crate_id :: "container_row list \<Rightarrow> int \<Rightarrow> ustring \<Rightarrow> int option" where
  "select_crate_id rows parent_id nm =
     map_option row_id
       (find (\<lambda>r. row_parent_id r = parent_id \<and> row_name r = nm \<and> row_type r = 1) rows)"

text \<open>\<open>cursor.lastrowid\<close> after an insert: one more than the largest rowid, 1 in an empty table.\<close>

definition next_rowid :: "container_row list \<Rightarrow> int" where
  "next_rowid rows = (case map row_id rows of [] \<Rightarrow> 1 | i # ids \<Rightarrow> fold max ids i + 1)"

text \<open>\<open>SELECT COALESCE(MAX(list_order), 0) + 1 FROM container WHERE parent_id = 0\<close>.\<close>

definition select_next_order :: "container_row list \<Rightarrow> int" where
  "select_next_order rows =
     (case map row_list_order (filter (\<lambda>r. row_parent_id r = 0) rows) of
        [] \<Rightarrow> 0
      | x # xs \<Rightarrow> fold max xs x) + 1"

definition insert_container :: "container_row \<Rightarrow> database \<Rightarrow> database" where
  "insert_container r d = d\<lparr>container := container d @ [r]\<rparr>"

definition crate_uri :: "ustring \<Rightarrow> ustring" where
  "crate_uri display_name = ustr ''crate://'' @ display_name"

text \<open>
  \<open>create_crate_recursive(crate_plan, parent_id, parent_prefix, list_order)\<close> with the
  loop over the children as \<open>create_children\<close>. \<open>clock\<close> is \<open>int(time.time())\<close> at
  the given operation.
\<close>

fun create_crate_recursive ::
    "(nat \<Rightarrow> bool) \<Rightarrow> (nat \<Rightarrow> int) \<Rightarrow> ustring \<Rightarrow> crate_plan \<Rightarrow> int \<Rightarrow> ustring \<Rightarrow> int \<Rightarrow>
     writer_state \<Rightarrow> error + int \<times> writer_state"
  and create_children ::
    "(nat \<Rightarrow> bool) \<Rightarrow> (nat \<Rightarrow> int) \<Rightarrow> ustring \<Rightarrow> crate_plan list \<Rightarrow> int \<Rightarrow> ustring \<Rightarrow> int \<Rightarrow>
     writer_state \<Rightarrow> error + writer_state"
where
  "create_crate_recursive faults clock subcrate_delimiter
     (CratePlan name folder parent_name tracks children) parent_id parent_prefix list_order st =
     (let display_name =
            (if parent_prefix \<noteq> [] then parent_prefix @ subcrate_delimiter @ name else name)
      in case cursor_execute faults st of
           Inr st1 \<Rightarrow>
             (case
                (case select_crate_id (container (db st1)) parent_id name of
                   Some existing \<Rightarrow>
                     Inr (existing, st1\<lparr>crates_skipped := crates_skipped st1 + 1\<rparr>)
                 | None \<Rightarrow>
                     (let st2 = st1\<lparr>revision := revision st1 + 1\<rparr>
                      in case cursor_execute faults st2 of
                           Inr st3 \<Rightarrow>
                             (let crate_id = next_rowid (container (db st3));
                                  new_row =
                                    \<lparr>row_id = crate_id, row_revision = revision st3,
                                     row_parent_id = parent_id, row_name = name, row_type = 1,
                                     row_list_order = list_order,
                                     row_time_added = clock (executed st2), row_expanded = 0,
                                     row_portable_id = crate_uri display_name\<rparr>
                              in Inr
                                   (crate_id,
                                    st3\<lparr>db := insert_container new_row (db st3),
                                        crates_created := crates_created st3 + 1\<rparr>))
                         | Inl e \<Rightarrow> Inl e))
              of
                Inr (crate_id, st4) \<Rightarrow>
                  (case create_children faults clock subcrate_delimiter children crate_id
                          display_name 1 st4 of
                     Inr st5 \<Rightarrow> Inr (crate_id, st5)
                   | Inl e \<Rightarrow> Inl e)
              | Inl e \<Rightarrow> Inl e)
         | Inl e \<Rightarrow> Inl e)"
| "create_children faults clock subcrate_delimiter [] crate_id display_name child_order st =
     Inr st"
| "create_children faults clock subcrate_delimiter (child # rest) crate_id display_name
     child_order st =
     (case create_crate_recursive faults clock subcrate_delimiter child crate_id display_name
             child_order st of
        Inr (child_id, st1) \<Rightarrow>
          create_children faults clock subcrate_delimiter rest crate_id display_name
            (child_order + 1) st1
      | Inl e \<Rightarrow> Inl e)"

text \<open>The loop over \<open>plan.crates\<close>, starting below the root container (\<open>parent_id = 0\<close>).\<close>

fun create_roots ::
  "(nat \<Rightarrow> bool) \<Rightarrow> (nat \<Rightarrow> int) \<Rightarrow> ustring \<Rightarrow> crate_plan list \<Rightarrow> int \<Rightarrow> writer_state \<Rightarrow>
   error + writer_state" where
  "create_roots faults clock subcrate_delimiter [] next_order st = Inr st"
| "create_roots faults clock subcrate_delimiter (crate_plan # rest) next_order st =
     (case create_crate_recursive faults clock subcrate_delimiter crate_plan 0 [] next_order st of
        Inr (crate_id, st1) \<Rightarrow>
          create_roots faults clock subcrate_delimiter rest (next_order + 1) st1
      | Inl e \<Rightarrow> Inl e)"

text \<open>
  The body of the \<open>try\<close> block of \<open>write_crates_to_sqlite\<close>: connect, read the
  revision and the next list order, create the crates, write the revision back, commit.
\<close>

definition run_transaction ::
  "(nat \<Rightarrow> bool) \<Rightarrow> (nat \<Rightarrow> int) \<Rightarrow> sync_plan \<Rightarrow> ustring \<Rightarrow> database \<Rightarrow> error + writer_state" where
  "run_transaction faults clock plan subcrate_delimiter d =
     (case cursor_execute faults
             \<lparr>db = d, executed = 0, crates_created = 0, crates_skipped = 0, revision = 0\<rparr> of
        Inr st1 \<Rightarrow>
          (case cursor_execute faults st1 of
             Inr st2 \<Rightarrow>
               (let st3 = st2\<lparr>revision := (case serato (db st2) of [] \<Rightarrow> 1 | r # rs \<Rightarrow> r)\<rparr>
                in case cursor_execute faults st3 of
                     Inr st4 \<Rightarrow>
                       (let next_order = select_next_order (container (db st4))
                        in case create_roots faults clock subcrate_delimiter (crates plan)
                                  next_order st4 of
                             Inr st5 \<Rightarrow>
                               (case cursor_execute faults st5 of
                                  Inr st6 \<Rightarrow>
                                    (let st7 = st6\<lparr>db := (db st6)\<lparr>serato :=
                                                 map (\<lambda>r. revision st6) (serato (db st6))\<rparr>\<rparr>
                                     in cursor_execute faults st7)
                                | Inl e \<Rightarrow> Inl e)
                           | Inl e \<Rightarrow> Inl e)
                   | Inl e \<Rightarrow> Inl e)
           | Inl e \<Rightarrow> Inl e)
      | Inl e \<Rightarrow> Inl e)"

text \<open>
  \<open>write_crates_to_sqlite(plan, subcrate_delimiter)\<close>. The database file is \<open>None\<close>
  when it does not exist. The result is the pair \<open>(crates_created, crates_skipped)\<close>
  and the database file after the call: the tables of the transaction when it
  committed, the file as it was when an exception ended the run before the commit.
\<close>

definition write_crates_to_sqlite ::
  "(nat \<Rightarrow> bool) \<Rightarrow> (nat \<Rightarrow> int) \<Rightarrow> sync_plan \<Rightarrow> ustring \<Rightarrow> database option \<Rightarrow>
   (nat \<times> nat) \<times> database option" where
  "write_crates_to_sqlite faults clock plan subcrate_delimiter db_file =
     (case db_file of
        None \<Rightarrow> ((0, 0), None)
      | Some d \<Rightarrow>
          (case run_transaction faults clock plan subcrate_delimiter d of
             Inr st \<Rightarrow> ((crates_created st, crates_skipped st), Some (db st))
           | Inl e \<Rightarrow> ((0, 0), Some d)))"

text \<open>\<open>count_crates_and_tracks\<close>: the number of nodes of a list of crate trees.\<close>

fun count_crates :: "crate_plan \<Rightarrow> nat"
  and count_crates_list :: "crate_plan list \<Rightarrow> nat" where
  "count_crates (CratePlan name folder parent_name tracks children) =
     1 + count_crates_list children"
| "count_crates_list [] = 0"
| "count_crates_list (c # cs) = count_crates c + count_crates_list cs"

text \<open>
  How a stretch of a run changes the state: \<open>n\<close> crates were processed, the rows
  inserted (at most \<open>n\<close>) were appended to the \<open>container\<close> table, each insert counted once in
  \<open>crates_created\<close> and once in \<open>revision\<close>, the others in \<open>crates_skipped\<close>, and
  the \<open>serato\<close> table was not touched.
\<close>

definition advances :: "writer_state \<Rightarrow> writer_state \<Rightarrow> nat \<Rightarrow> bool" where
  "advances st st' n \<longleftrightarrow>
     (\<exists>rows. container (db st') = container (db st) @ rows \<and>
             crates_created st' = crates_created st + length rows \<and>
             revision st' = revision st + int (length rows) \<and>
             length rows \<le> n) \<and>
     serato (db st') = serato (db st) \<and>
     crates_created st' + crates_skipped st' = crates_created st + crates_skipped st + n"

text \<open>
  A crate tree is resolved below \<open>parent_id\<close> when the lookup finds a row for its root
  and its children are resolved below that row.
\<close>

fun resolved :: "container_row list \<Rightarrow> int \<Rightarrow> crate_plan \<Rightarrow> bool" where
  "resolved rows parent_id (CratePlan name folder parent_name tracks children) =
     (case select_crate_id rows parent_id name of
        None \<Rightarrow> False
      | Some existing \<Rightarrow> list_all (resolved rows existing) children)"

text \<open>The revision the run starts from: the first row of \<open>serato\<close>, 1 if there is none.\<close>

definition start_revision :: "database \<Rightarrow> int" where
  "start_revision d = (case serato d of [] \<Rightarrow> 1 | r # rs \<Rightarrow> r)"

text \<open>The state after \<open>n\<close> crates were looked up, found and skipped.\<close>

definition skipped_by :: "nat \<Rightarrow> writer_state \<Rightarrow> writer_state" where
  "skipped_by n st = st\<lparr>executed := executed st + n, crates_skipped := crates_skipped st + n\<rparr>"

text \<open>The state in which the loop over \<open>plan.crates\<close> starts, after three operations.\<close>

definition start_state :: "database \<Rightarrow> writer_state" where
  "start_state d =
     \<lparr>db = d, executed = 3, crates_created = 0, crates_skipped = 0, revision = start_revision d\<rparr>"

text \<open>A run in which no database operation raises.\<close>

definition no_faults :: "(nat \<Rightarrow> bool) \<Rightarrow> bool" where
  "no_faults faults \<longleftrightarrow> (\<forall>k. \<not> faults k)"

text \<open>The number of \<open>container\<close> rows below a given parent.\<close>

definition rows_under :: "int \<Rightarrow> database \<Rightarrow> nat" where
  "rows_under parent_id d = length (filter (\<lambda>r. row_parent_id r = parent_id) (container d))"

text \<open>A plan of two crates, \<open>M\<close> and its subcrate \<open>A\<close>, and a database without crates.\<close>

definition example_plan :: sync_plan where
  "example_plan =
     \<lparr>music_root = Path True [ustr ''M''], serato_root = Path True [ustr ''_Serato_''],
      crates = [CratePlan (ustr ''M'') (Path True [ustr ''M'']) None []
                  [CratePlan (ustr ''A'') (Path True [ustr ''M'', ustr ''A'']) (Some (ustr ''M''))
                     [Path True [ustr ''M'', ustr ''A'', ustr ''t.mp3'']] []]],
      total_tracks = 1, total_crates = 2, existing_crates = []\<rparr>"

definition example_db :: database where
  "example_db = \<lparr>container = [], serato = [7]\<rparr>"

definition example_db_synced :: database where
  "example_db_synced =
     \<lparr>container =
        [\<lparr>row_id = 1, row_revision = 8, row_parent_id = 0, row_name = ustr ''M'', row_type = 1,
          row_list_order = 1, row_time_added = 1000, row_expanded = 0,
          row_portable_id = ustr ''crate://M''\<rparr>,
         \<lparr>row_id = 2, row_revision = 9, row_parent_id = 1, row_name = ustr ''A'', row_type = 1,
          row_list_order = 1, row_time_added = 1000, row_expanded = 0,
          row_portable_id = ustr ''crate://M%%A''\<rparr>],
      serato = [9]\<rparr>"

text \<open>A database that holds the crate \<open>M\<close> only, and the state of a run on it.\<close>

definition parent_only_db :: database where
  "parent_only_db =
     \<lparr>container =
        [\<lparr>row_id = 1, row_revision = 8, row_parent_id = 0, row_name = ustr ''M'', row_type = 1,
          row_list_order = 1, row_time_added = 1000, row_expanded = 0,
          row_portable_id = ustr ''crate://M''\<rparr>],
      serato = [8]\<rparr>"

section \<open>File writer, backup and orchestrator\<close>

text \<open>
  The Serato root folder: the \<open>Subcrates\<close> folder, when it exists, with its files by
  name, and the backup folders beside it by name.
\<close>

type_synonym folder = "(ustring \<times> byte list) list"

record serato_fs =
  fs_subcrates :: "folder option"
  fs_backups :: "(ustring \<times> folder) list"

text \<open>
  What the run takes from outside: the normalisation and \<open>Path.resolve\<close>, the
  timestamp \<open>datetime.now().strftime(...)\<close>, the files whose \<open>unlink\<close> raises, and the
  \<open>serato_crate\<close> library (absent when the import fails), which writes a crate file
  for a list of track paths or raises.
\<close>

record sync_env =
  env_nfc :: "ustring \<Rightarrow> ustring"
  env_resolve :: "path \<Rightarrow> path"
  env_timestamp :: ustring
  env_undeletable :: "ustring \<Rightarrow> bool"
  env_library :: "(ustring list \<Rightarrow> byte list outcome) option"

definition file_exists :: "ustring \<Rightarrow> folder \<Rightarrow> bool" where
  "file_exists nm dir \<longleftrightarrow> list_ex (\<lambda>f. fst f = nm) dir"

definition write_file :: "ustring \<Rightarrow> byte list \<Rightarrow> folder \<Rightarrow> folder" where
  "write_file nm content dir =
     (if file_exists nm dir then map (\<lambda>f. if fst f = nm then (nm, content) else f) dir
      else dir @ [(nm, content)])"

definition ends_with :: "ustring \<Rightarrow> ustring \<Rightarrow> bool" where
  "ends_with s suf \<longleftrightarrow> length suf \<le> length s \<and> drop (length s - length suf) s = suf"

definition backup_name :: "ustring \<Rightarrow> ustring" where
  "backup_name timestamp = ustr ''Subcrates.BACKUP.'' @ timestamp"

text \<open>
  \<open>backup_subcrates(serato_root)\<close>: \<open>shutil.copytree\<close> raises when the destination
  exists already.
\<close>

definition backup_subcrates :: "ustring \<Rightarrow> serato_fs \<Rightarrow> ustring option outcome \<times> serato_fs" where
  "backup_subcrates timestamp fs =
     (case fs_subcrates fs of
        None \<Rightarrow> (Returns None, fs)
      | Some dir \<Rightarrow>
          (if list_ex (\<lambda>b. fst b = backup_name timestamp) (fs_backups fs)
           then (Raises FileExistsError, fs)
           else (Returns (Some (backup_name timestamp)),
                 fs\<lparr>fs_backups := fs_backups fs @ [(backup_name timestamp, dir)]\<rparr>)))"

text \<open>\<open>subcrates.mkdir(parents=True, exist_ok=True)\<close>.\<close>

definition mkdir_subcrates :: "serato_fs \<Rightarrow> serato_fs" where
  "mkdir_subcrates fs =
     (case fs_subcrates fs of None \<Rightarrow> fs\<lparr>fs_subcrates := Some []\<rparr> | Some dir \<Rightarrow> fs)"

text \<open>
  \<open>clean_existing_crates(serato_root)\<close>: every \<open>*.crate\<close> file is unlinked; a file
  whose \<open>unlink\<close> raises stays and is not counted.
\<close>

definition clean_existing_crates :: "(ustring \<Rightarrow> bool) \<Rightarrow> serato_fs \<Rightarrow> nat \<times> serato_fs" where
  "clean_existing_crates undeletable fs =
     (case fs_subcrates fs of
        None \<Rightarrow> (0, fs)
      | Some dir \<Rightarrow>
          (length (filter (\<lambda>f. ends_with (fst f) (ustr ''.crate'') \<and> \<not> undeletable (fst f)) dir),
           fs\<lparr>fs_subcrates :=
                Some (filter (\<lambda>f. \<not> (ends_with (fst f) (ustr ''.crate'') \<and> \<not> undeletable (fst f)))
                        dir)\<rparr>))"

text \<open>
  The state of \<open>write_crates_with_serato_crate\<close>: the \<open>Subcrates\<close> folder and the
  closure variables \<open>crates_created\<close> and \<open>crates_skipped\<close>.
\<close>

record file_writer_state =
  subcrates_dir :: folder
  n_created :: nat
  n_skipped :: nat

text \<open>
  \<open>write_crate_recursive(crate_plan, parent_prefix)\<close> with its loop over the children.
  The sanitizer is called outside the \<open>try\<close> block, so its exception leaves the
  function; every exception of the library and of the binary fallback is caught.
\<close>

fun write_crate_recursive ::
    "sync_env \<Rightarrow> (ustring list \<Rightarrow> byte list outcome) \<Rightarrow> path \<Rightarrow> bool \<Rightarrow> ustring \<Rightarrow> ustring \<Rightarrow>
     crate_plan \<Rightarrow> ustring \<Rightarrow> file_writer_state \<Rightarrow> unit outcome \<times> file_writer_state"
  and write_crate_children ::
    "sync_env \<Rightarrow> (ustring list \<Rightarrow> byte list outcome) \<Rightarrow> path \<Rightarrow> bool \<Rightarrow> ustring \<Rightarrow> ustring \<Rightarrow>
     crate_plan list \<Rightarrow> ustring \<Rightarrow> file_writer_state \<Rightarrow> unit outcome \<times> file_writer_state"
where
  "write_crate_recursive env library root overwrite subcrate_delimiter path_mode
     (CratePlan name folder parent_name tracks children) parent_prefix st =
     (case sanitize_crate_filename (env_nfc env)
             (if parent_prefix \<noteq> [] then parent_prefix @ subcrate_delimiter @ name else name)
             default_max_bytes of
        Returns crate_filename \<Rightarrow>
          (let crate_file = crate_filename @ ustr ''.crate''
           in if file_exists crate_file (subcrates_dir st) \<and> \<not> overwrite then
                write_crate_children env library root overwrite subcrate_delimiter path_mode
                  children crate_filename (st\<lparr>n_skipped := n_skipped st + 1\<rparr>)
              else
                (case library
                        (map (resolve_track_path (env_resolve env) root path_mode) tracks) of
                   Returns content \<Rightarrow>
                     write_crate_children env library root overwrite subcrate_delimiter path_mode
                       children crate_filename
                       (st\<lparr>subcrates_dir := write_file crate_file content (subcrates_dir st),
                           n_created := n_created st + 1\<rparr>)
                 | Raises e \<Rightarrow>
                     (case write_crate_binary (CratePlan name folder parent_name tracks children)
                             (resolve_track_path (env_resolve env) root path_mode) of
                        Returns content \<Rightarrow>
                          write_crate_children env library root overwrite subcrate_delimiter
                            path_mode children crate_filename
                            (st\<lparr>subcrates_dir := write_file crate_file content (subcrates_dir st),
                                n_created := n_created st + 1\<rparr>)
                      | Raises e2 \<Rightarrow>
                          write_crate_children env library root overwrite subcrate_delimiter
                            path_mode children crate_filename st
                      | Diverges \<Rightarrow> (Diverges, st))
                 | Diverges \<Rightarrow> (Diverges, st)))
      | Raises e \<Rightarrow> (Raises e, st)
      | Diverges \<Rightarrow> (Diverges, st))"
| "write_crate_children env library root overwrite subcrate_delimiter path_mode [] crate_filename st =
     (Returns (), st)"
| "write_crate_children env library root overwrite subcrate_delimiter path_mode (child # rest)
     crate_filename st =
     (case write_crate_recursive env library root overwrite subcrate_delimiter path_mode child
             crate_filename st of
        (Returns u, st1) \<Rightarrow>
          write_crate_children env library root overwrite subcrate_delimiter path_mode rest
            crate_filename st1
      | (Raises e, st1) \<Rightarrow> (Raises e, st1)
      | (Diverges, st1) \<Rightarrow> (Diverges, st1))"

text \<open>The loop \<open>for crate_plan in plan.crates: write_crate_recursive(crate_plan)\<close>.\<close>

fun write_crate_roots ::
  "sync_env \<Rightarrow> (ustring list \<Rightarrow> byte list outcome) \<Rightarrow> path \<Rightarrow> bool \<Rightarrow> ustring \<Rightarrow> ustring \<Rightarrow>
   crate_plan list \<Rightarrow> file_writer_state \<Rightarrow> unit outcome \<times> file_writer_state" where
  "write_crate_roots env library root overwrite subcrate_delimiter path_mode [] st =
     (Returns (), st)"
| "write_crate_roots env library root overwrite subcrate_delimiter path_mode (crate_plan # rest) st =
     (case write_crate_recursive env library root overwrite subcrate_delimiter path_mode
             crate_plan [] st of
        (Returns u, st1) \<Rightarrow>
          write_crate_roots env library root overwrite subcrate_delimiter path_mode rest st1
      | (Raises e, st1) \<Rightarrow> (Raises e, st1)
      | (Diverges, st1) \<Rightarrow> (Diverges, st1))"

text \<open>
  \<open>write_crates_with_serato_crate(plan, overwrite, subcrate_delimiter, path_mode)\<close>:
  the pair \<open>(crates_created, crates_skipped)\<close>, or the exception that left the function,
  and the file system after the call.
\<close>

definition write_crates_with_serato_crate ::
  "sync_env \<Rightarrow> sync_plan \<Rightarrow> bool \<Rightarrow> ustring \<Rightarrow> ustring \<Rightarrow> serato_fs \<Rightarrow>
   (nat \<times> nat) outcome \<times> serato_fs" where
  "write_crates_with_serato_crate env plan overwrite subcrate_delimiter path_mode fs =
     (case env_library env of
        None \<Rightarrow> (Returns (0, 0), fs)
      | Some library \<Rightarrow>
          (let fs1 = mkdir_subcrates fs;
               st = \<lparr>subcrates_dir = (case fs_subcrates fs1 of None \<Rightarrow> [] | Some dir \<Rightarrow> dir),
                     n_created = 0, n_skipped = 0\<rparr>
           in case write_crate_roots env library (music_root plan) overwrite subcrate_delimiter
                     path_mode (crates plan) st of
                (Returns u, st1) \<Rightarrow>
                  (Returns (n_created st1, n_skipped st1),
                   fs1\<lparr>fs_subcrates := Some (subcrates_dir st1)\<rparr>)
              | (Raises e, st1) \<Rightarrow> (Raises e, fs1\<lparr>fs_subcrates := Some (subcrates_dir st1)\<rparr>)
              | (Diverges, st1) \<Rightarrow> (Diverges, fs1\<lparr>fs_subcrates := Some (subcrates_dir st1)\<rparr>)))"

text \<open>\<open>execute_sync(plan, overwrite, clean, subcrate_delimiter, path_mode)\<close>.\<close>

definition execute_sync ::
  "sync_env \<Rightarrow> sync_plan \<Rightarrow> bool \<Rightarrow> bool \<Rightarrow> ustring \<Rightarrow> ustring \<Rightarrow> serato_fs \<Rightarrow>
   bool outcome \<times> serato_fs" where
  "execute_sync env plan overwrite clean subcrate_delimiter path_mode fs =
     (case backup_subcrates (env_timestamp env) fs of
        (Returns backup_path, fs1) \<Rightarrow>
          (let fs2 = mkdir_subcrates fs1;
               fs3 = (if clean then snd (clean_existing_crates (env_undeletable env) fs2) else fs2)
           in case write_crates_with_serato_crate env plan (overwrite \<or> clean) subcrate_delimiter
                     path_mode fs3 of
                (Returns (created, skipped), fs4) \<Rightarrow> (Returns True, fs4)
              | (Raises e, fs4) \<Rightarrow> (Raises e, fs4)
              | (Diverges, fs4) \<Rightarrow> (Diverges, fs4))
      | (Raises e, fs1) \<Rightarrow> (Raises e, fs1)
      | (Diverges, fs1) \<Rightarrow> (Diverges, fs1))"

text \<open>
  An environment in which the library raises on every write, a plan whose only track
  path holds a lone surrogate (as a file name that is not valid UTF-8 does), and an
  empty Serato root with and without an older crate file.
\<close>

definition failing_env :: sync_env where
  "failing_env =
     \<lparr>env_nfc = (\<lambda>s. s), env_resolve = (\<lambda>p. p), env_timestamp = ustr ''20240101_120000'',
      env_undeletable = (\<lambda>f. False), env_library = Some (\<lambda>paths. Raises LibraryError)\<rparr>"

definition working_env :: sync_env where
  "working_env =
     \<lparr>env_nfc = (\<lambda>s. s), env_resolve = (\<lambda>p. p), env_timestamp = ustr ''20240101_120000'',
      env_undeletable = (\<lambda>f. f = ustr ''M.crate''), env_library = Some (\<lambda>paths. Returns [1])\<rparr>"

definition surrogate_plan :: sync_plan where
  "surrogate_plan =
     \<lparr>music_root = Path True [ustr ''M''], serato_root = Path True [ustr ''_Serato_''],
      crates = [CratePlan (ustr ''M'') (Path True [ustr ''M'']) None [Path True [[0xD800]]] []],
      total_tracks = 1, total_crates = 1, existing_crates = []\<rparr>"

definition empty_fs :: serato_fs where
  "empty_fs = \<lparr>fs_subcrates = None, fs_backups = []\<rparr>"

definition old_fs :: serato_fs where
  "old_fs = \<lparr>fs_subcrates = Some [(ustr ''M.crate'', [0]), (ustr ''Old.crate'', [0])],
             fs_backups = []\<rparr>"

section \<open>Properties of the sanitizer\<close>


lemma fold_remove_char: "fold remove_char cs s = filter (\<lambda>x. x \<notin> set cs) s"
  by (induction cs arbitrary: s) (auto simp: remove_char_def intro: filter_cong)

lemma fold_replace_char:
  "fold replace_char cs s = map (\<lambda>x. if x \<in> set cs then hyphen else x) s"
  by (induction cs arbitrary: s) (auto simp: replace_char_def)

lemma rstrip_take: "rstrip s = take (length (rstrip s)) s"
proof -
  have "rev s = takeWhile is_whitespace (rev s) @ dropWhile is_whitespace (rev s)" by simp
  then have "s = rev (dropWhile is_whitespace (rev s)) @ rev (takeWhile is_whitespace (rev s))"
    by (metis rev_append rev_rev_ident)
  then have "s = rstrip s @ rev (takeWhile is_whitespace (rev s))"
    by (simp add: rstrip_def)
  then show ?thesis
    by (metis append_eq_conv_conj)
qed

lemma set_rstrip: "set (rstrip s) \<subseteq> set s"
  by (metis rstrip_take set_take_subset)

lemma set_lstrip: "set (lstrip s) \<subseteq> set s"
  by (simp add: lstrip_def set_dropWhileD subsetI)

lemma set_strip: "set (strip s) \<subseteq> set s"
  unfolding strip_def using set_lstrip set_rstrip by blast

lemma rstrip_end: "rstrip s = [] \<or> \<not> is_whitespace (last (rstrip s))"
proof -
  have "dropWhile is_whitespace (rev s) = [] \<or> \<not> is_whitespace (hd (dropWhile is_whitespace (rev s)))"
    using hd_dropWhile by blast
  then show ?thesis
    by (auto simp: rstrip_def last_rev)
qed

lemma rstrip_id: "s = [] \<or> \<not> is_whitespace (last s) \<Longrightarrow> rstrip s = s"
  by (cases s rule: rev_cases) (auto simp: rstrip_def)

lemma lstrip_keeps_end:
  assumes "s = [] \<or> \<not> is_whitespace (last s)"
  shows "lstrip s = [] \<or> \<not> is_whitespace (last (lstrip s))"
proof (cases "lstrip s = []")
  case False
  then have "s \<noteq> []" by (auto simp: lstrip_def)
  moreover have "s = takeWhile is_whitespace s @ lstrip s" by (simp add: lstrip_def)
  ultimately have "last s = last (lstrip s)" using False by (metis last_appendR)
  with assms \<open>s \<noteq> []\<close> show ?thesis by simp
qed simp

lemma rstrip_strip: "rstrip (strip s) = strip s"
  unfolding strip_def by (rule rstrip_id) (rule lstrip_keeps_end, rule rstrip_end)

lemma lstrip_lstrip: "lstrip (lstrip s) = lstrip s"
  by (simp add: lstrip_def dropWhile_idem)

lemma strip_strip: "strip (strip s) = strip s"
  by (metis strip_def rstrip_strip lstrip_lstrip)

lemma strip_snoc: "\<not> is_whitespace e \<Longrightarrow> strip (s @ [e]) = lstrip s @ [e]"
  by (auto simp: strip_def rstrip_def lstrip_def dropWhile_append)


lemma encode_utf8_ok: "\<not> list_ex is_surrogate s \<Longrightarrow> encode_utf8 s = Inr (concat (map utf8_char s))"
  by (simp add: encode_utf8_def)

lemma utf8_length_append: "utf8_length (a @ b) = utf8_length a + utf8_length b"
  by (simp add: utf8_length_def)

lemma utf8_length_take: "utf8_length (take n s) \<le> utf8_length s"
  by (metis append_take_drop_id le_add1 utf8_length_append)

lemma utf8_length_drop: "utf8_length (drop n s) \<le> utf8_length s"
  by (metis append_take_drop_id le_add2 utf8_length_append)

lemma utf8_length_lstrip: "utf8_length (lstrip s) \<le> utf8_length s"
proof -
  have "lstrip s = drop (length (takeWhile is_whitespace s)) s"
    by (simp add: lstrip_def dropWhile_eq_drop)
  then show ?thesis by (metis utf8_length_drop)
qed

lemma utf8_length_rstrip: "utf8_length (rstrip s) \<le> utf8_length s"
  by (metis rstrip_take utf8_length_take)

lemma utf8_length_strip: "utf8_length (strip s) \<le> utf8_length s"
  unfolding strip_def using utf8_length_lstrip utf8_length_rstrip order_trans by blast

lemma truncate_loop_step:
  "\<not> list_ex is_surrogate s \<Longrightarrow>
   truncate_loop s m =
     (if m < int (utf8_length s) then truncate_loop (butlast s) m else Some (Inr s))"
  by (subst truncate_loop.simps) (simp add: encode_utf8_ok utf8_length_def)

lemma truncate_loop_prefix:
  assumes "0 \<le> m"
  shows "\<not> list_ex is_surrogate s \<Longrightarrow>
     \<exists>k. truncate_loop s m = Some (Inr (take k s)) \<and> int (utf8_length (take k s)) \<le> m"
proof (induction s rule: rev_induct)
  case Nil
  then show ?case using assms
    by (simp add: truncate_loop_step utf8_length_def)
next
  case (snoc x xs)
  then have ns: "\<not> list_ex is_surrogate xs" by simp
  show ?case
  proof (cases "m < int (utf8_length (xs @ [x]))")
    case True
    from snoc.IH[OF ns] obtain k where
      k: "truncate_loop xs m = Some (Inr (take k xs))" "int (utf8_length (take k xs)) \<le> m"
      by blast
    have "truncate_loop (xs @ [x]) m = truncate_loop (butlast (xs @ [x])) m"
      using snoc.prems True by (subst truncate_loop_step) simp_all
    then have "truncate_loop (xs @ [x]) m = Some (Inr (take k xs))"
      using k(1) by simp
    moreover have "take (min k (length xs)) (xs @ [x]) = take k xs"
      by (cases "k \<le> length xs") (simp_all add: min_def)
    ultimately show ?thesis using k(2) by metis
  next
    case False
    have "truncate_loop (xs @ [x]) m = Some (Inr (xs @ [x]))"
      using snoc.prems False by (subst truncate_loop_step) simp_all
    moreover have "take (Suc (length xs)) (xs @ [x]) = xs @ [x]" by simp
    ultimately show ?thesis using False by (metis linorder_not_less)
  qed
qed


lemma ellipsis_facts:
  "ellipsis \<notin> set invisible_chars" "ellipsis \<notin> set reserved_chars"
  "\<not> is_surrogate ellipsis" "\<not> is_whitespace ellipsis"
  by (simp_all add: ellipsis_def invisible_chars_def reserved_chars_def is_surrogate_def
      is_whitespace_def)

lemma hyphen_facts: "hyphen \<notin> set invisible_chars" "hyphen \<notin> set reserved_chars"
  by (simp_all add: hyphen_def invisible_chars_def reserved_chars_def)

lemma clean_take: "nfc_laws nfc \<Longrightarrow> is_clean_name nfc s \<Longrightarrow> is_clean_name nfc (take n s)"
  unfolding is_clean_name_def nfc_laws_def list_ex_iff
  using set_take_subset[of n s] by (auto dest: in_set_takeD)

lemma clean_rstrip: "nfc_laws nfc \<Longrightarrow> is_clean_name nfc s \<Longrightarrow> is_clean_name nfc (rstrip s)"
  by (metis clean_take rstrip_take)

lemma clean_lstrip: "nfc_laws nfc \<Longrightarrow> is_clean_name nfc s \<Longrightarrow> is_clean_name nfc (lstrip s)"
  unfolding is_clean_name_def nfc_laws_def list_ex_iff
  using set_lstrip[of s] by auto

lemma clean_strip: "nfc_laws nfc \<Longrightarrow> is_clean_name nfc s \<Longrightarrow> is_clean_name nfc (strip s)"
  unfolding strip_def by (simp add: clean_lstrip clean_rstrip)

lemma clean_snoc: "nfc_laws nfc \<Longrightarrow> is_clean_name nfc s \<Longrightarrow> is_clean_name nfc (s @ [ellipsis])"
  unfolding is_clean_name_def nfc_laws_def list_ex_iff
  using ellipsis_facts by auto

lemma clean_fixed:
  assumes "is_clean_name nfc s"
  shows "fold replace_char reserved_chars (nfc (fold remove_char invisible_chars s)) = s"
proof -
  have 1: "fold remove_char invisible_chars s = s"
    using assms unfolding is_clean_name_def fold_remove_char by (auto simp: filter_id_conv)
  have 2: "fold replace_char reserved_chars s = s"
    using assms unfolding is_clean_name_def fold_replace_char by (intro map_idI) auto
  show ?thesis using assms 1 2 by (simp add: is_clean_name_def)
qed

lemma clean_first:
  assumes "nfc_laws nfc"
    and "\<not> list_ex is_surrogate (fold replace_char reserved_chars (nfc (fold remove_char invisible_chars x)))"
  shows "is_clean_name nfc (fold replace_char reserved_chars (nfc (fold remove_char invisible_chars x)))"
proof -
  let ?a = "fold remove_char invisible_chars x"
  have a: "set ?a \<inter> set invisible_chars = {}"
    unfolding fold_remove_char by auto
  then have b: "set (nfc ?a) \<inter> set invisible_chars = {}"
    using assms(1) unfolding nfc_laws_def by blast
  have c: "nfc (nfc ?a) = nfc ?a"
    using assms(1) unfolding nfc_laws_def by blast
  then have d: "nfc (fold replace_char reserved_chars (nfc ?a)) = fold replace_char reserved_chars (nfc ?a)"
    using assms(1) unfolding nfc_laws_def by blast
  have e: "set (fold replace_char reserved_chars (nfc ?a)) \<inter> set invisible_chars = {}"
    using b hyphen_facts unfolding fold_replace_char by auto
  have f: "set (fold replace_char reserved_chars (nfc ?a)) \<inter> set reserved_chars = {}"
    using hyphen_facts unfolding fold_replace_char by auto
  show ?thesis unfolding is_clean_name_def using d e f assms(2) by blast
qed

lemma sanitize_clean:
  assumes "is_clean_name nfc s"
  shows "sanitize_crate_filename nfc s m =
     (if int (utf8_length s) > m then
        (case truncate_loop s m of
           None \<Rightarrow> Diverges
         | Some (Inl e) \<Rightarrow> Raises e
         | Some (Inr filename4) \<Rightarrow> Returns (strip (rstrip filename4 @ [ellipsis])))
      else Returns (strip s))"
proof -
  have "encode_utf8 s = Inr (concat (map utf8_char s))"
    using assms by (simp add: is_clean_name_def encode_utf8_ok)
  then show ?thesis
    unfolding sanitize_crate_filename_def Let_def clean_fixed[OF assms]
    by (simp add: utf8_length_def)
qed

lemma sanitize_fixed_small:
  assumes "is_clean_name nfc r" "int (utf8_length r) \<le> m" "strip r = r"
  shows "sanitize_crate_filename nfc r m = Returns r"
  using assms by (simp add: sanitize_clean)

lemma sanitize_fixed_ellipsis:
  assumes "is_clean_name nfc (q @ [ellipsis])" "int (utf8_length q) \<le> m" "rstrip q = q" "lstrip q = q"
  shows "sanitize_crate_filename nfc (q @ [ellipsis]) m = Returns (q @ [ellipsis])"
proof -
  have ns: "\<not> list_ex is_surrogate (q @ [ellipsis])" "\<not> list_ex is_surrogate q"
    using assms(1) by (simp_all add: is_clean_name_def)
  have st: "strip (q @ [ellipsis]) = q @ [ellipsis]"
    using assms(4) by (simp add: strip_snoc ellipsis_facts)
  show ?thesis
  proof (cases "m < int (utf8_length (q @ [ellipsis]))")
    case True
    have "truncate_loop (q @ [ellipsis]) m = truncate_loop (butlast (q @ [ellipsis])) m"
      using ns(1) True by (subst truncate_loop_step) simp_all
    also have "\<dots> = truncate_loop q m" by simp
    also have "\<dots> = Some (Inr q)"
      using ns(2) assms(2) by (subst truncate_loop_step) simp_all
    finally show ?thesis
      using True assms(3) st by (simp add: sanitize_clean[OF assms(1)])
  next
    case False
    then show ?thesis using st by (simp add: sanitize_clean[OF assms(1)])
  qed
qed

lemma sanitize_twice_same:
  assumes laws: "nfc_laws nfc" and m: "0 \<le> m"
  shows "sanitize_twice nfc x m = sanitize_crate_filename nfc x m"
proof -
  define f3 where "f3 = fold replace_char reserved_chars (nfc (fold remove_char invisible_chars x))"
  have unf: "sanitize_crate_filename nfc x m =
     (case encode_utf8 f3 of
        Inl e \<Rightarrow> Raises e
      | Inr encoded \<Rightarrow>
          if int (length encoded) > m then
            (case truncate_loop f3 m of
               None \<Rightarrow> Diverges
             | Some (Inl e) \<Rightarrow> Raises e
             | Some (Inr filename4) \<Rightarrow> Returns (strip (rstrip filename4 @ [ellipsis])))
          else Returns (strip f3))"
    unfolding sanitize_crate_filename_def Let_def f3_def by (rule refl)
  show ?thesis
  proof (cases "list_ex is_surrogate f3")
    case True
    then have "sanitize_crate_filename nfc x m = Raises UnicodeEncodeError"
      unfolding unf by (simp add: encode_utf8_def)
    then show ?thesis by (simp add: sanitize_twice_def)
  next
    case False
    then have cl: "is_clean_name nfc f3" unfolding f3_def using clean_first[OF laws] by blast
    have enc: "encode_utf8 f3 = Inr (concat (map utf8_char f3))"
      using False by (rule encode_utf8_ok)
    show ?thesis
    proof (cases "m < int (utf8_length f3)")
      case True
      from truncate_loop_prefix[OF m False] obtain k where
        k: "truncate_loop f3 m = Some (Inr (take k f3))" "int (utf8_length (take k f3)) \<le> m"
        by blast
      define q where "q = strip (take k f3)"
      have "strip (rstrip (take k f3) @ [ellipsis]) = lstrip (rstrip (take k f3)) @ [ellipsis]"
        by (simp add: strip_snoc ellipsis_facts)
      then have "strip (rstrip (take k f3) @ [ellipsis]) = q @ [ellipsis]"
        by (simp add: q_def strip_def)
      then have res: "sanitize_crate_filename nfc x m = Returns (q @ [ellipsis])"
        unfolding unf using True k(1) enc by (simp add: utf8_length_def)
      have "is_clean_name nfc q"
        unfolding q_def using cl laws by (simp add: clean_strip clean_take)
      then have c: "is_clean_name nfc (q @ [ellipsis])" using laws by (rule clean_snoc[rotated])
      have len: "int (utf8_length q) \<le> m"
        using k(2) utf8_length_strip[of "take k f3"] unfolding q_def by linarith
      have "rstrip q = q" "lstrip q = q"
        unfolding q_def by (simp_all add: rstrip_strip) (simp add: strip_def lstrip_lstrip)
      with c len have "sanitize_crate_filename nfc (q @ [ellipsis]) m = Returns (q @ [ellipsis])"
        by (rule sanitize_fixed_ellipsis)
      then show ?thesis using res by (simp add: sanitize_twice_def)
    next
      case nt: False
      have res: "sanitize_crate_filename nfc x m = Returns (strip f3)"
        unfolding unf using nt enc by (simp add: utf8_length_def)
      have "is_clean_name nfc (strip f3)" using cl laws by (simp add: clean_strip)
      moreover have "int (utf8_length (strip f3)) \<le> m"
        using nt utf8_length_strip[of f3] by linarith
      ultimately have "sanitize_crate_filename nfc (strip f3) m = Returns (strip f3)"
        by (rule sanitize_fixed_small) (rule strip_strip)
      then show ?thesis using res by (simp add: sanitize_twice_def)
    qed
  qed
qed

lemma truncate_loop_needs_budget:
  assumes "truncate_loop s m = Some r"
  shows "(\<exists>e. r = Inl e) \<or> 0 \<le> m"
  using assms
  by (rule truncate_loop.raw_induct[where P="\<lambda>s m r. (\<exists>e. r = Inl e) \<or> 0 \<le> m", rotated])
    (auto split: sum.splits if_splits; metis)

lemma truncate_loop_raises_surrogate:
  assumes "truncate_loop s m = Some r"
  shows "\<forall>e. r = Inl e \<longrightarrow> list_ex is_surrogate s"
  using assms
  by (rule truncate_loop.raw_induct[where
        P="\<lambda>s m r. \<forall>e. r = Inl e \<longrightarrow> list_ex is_surrogate s", rotated])
    (auto simp: encode_utf8_def list_ex_iff split: sum.splits if_splits; metis in_set_butlastD)

text \<open>
  With a negative budget the loop never ends: the empty string still has more bytes than
  the budget, and \<open>filename[:-1]\<close> of the empty string is the empty string.
\<close>

lemma sanitize_negative_budget_diverges:
  assumes "max_bytes < 0"
    and "\<not> list_ex is_surrogate
           (fold replace_char reserved_chars (nfc (fold remove_char invisible_chars filename)))"
  shows "sanitize_crate_filename nfc filename max_bytes = Diverges"
proof -
  let ?f3 = "fold replace_char reserved_chars (nfc (fold remove_char invisible_chars filename))"
  have "truncate_loop ?f3 max_bytes = None"
  proof (cases "truncate_loop ?f3 max_bytes")
    case (Some r)
    from truncate_loop_needs_budget[OF Some] assms(1) obtain e where "r = Inl e" by auto
    with truncate_loop_raises_surrogate[OF Some] assms(2) show ?thesis by blast
  qed simp
  then show ?thesis
    using assms
    by (simp add: sanitize_crate_filename_def Let_def encode_utf8_ok)
qed

text \<open>
  With a budget that is not negative the sanitizer returns or raises, and what it returns
  has at most three bytes more than the budget: the bytes of the ellipsis.
\<close>

lemma sanitize_budget_plus_ellipsis:
  assumes "0 \<le> max_bytes"
  shows "sanitize_crate_filename nfc filename max_bytes \<noteq> Diverges"
    and "sanitize_crate_filename nfc filename max_bytes = Returns r \<Longrightarrow>
         int (utf8_length r) \<le> max_bytes + 3"
proof -
  let ?f3 = "fold replace_char reserved_chars (nfc (fold remove_char invisible_chars filename))"
  have e3: "utf8_length [ellipsis] = 3"
    by (simp add: utf8_length_def utf8_char_def ellipsis_def)
  have both: "sanitize_crate_filename nfc filename max_bytes \<noteq> Diverges \<and>
    (\<forall>r. sanitize_crate_filename nfc filename max_bytes = Returns r \<longrightarrow>
         int (utf8_length r) \<le> max_bytes + 3)"
  proof (cases "list_ex is_surrogate ?f3")
    case True
    then show ?thesis
      by (simp add: sanitize_crate_filename_def Let_def encode_utf8_def)
  next
    case False
    from truncate_loop_prefix[OF assms False] obtain k where
      k: "truncate_loop ?f3 max_bytes = Some (Inr (take k ?f3))"
         "int (utf8_length (take k ?f3)) \<le> max_bytes"
      by blast
    have a: "int (utf8_length (strip (rstrip (take k ?f3) @ [ellipsis]))) \<le> max_bytes + 3"
      using utf8_length_strip[of "rstrip (take k ?f3) @ [ellipsis]"]
        utf8_length_rstrip[of "take k ?f3"] k(2)
      by (simp add: utf8_length_append e3)
    have b: "\<not> max_bytes < int (utf8_length ?f3) \<Longrightarrow>
             int (utf8_length (strip ?f3)) \<le> max_bytes + 3"
      using utf8_length_strip[of ?f3] by linarith
    show ?thesis
      using False k(1) a b
      by (auto simp: sanitize_crate_filename_def Let_def encode_utf8_ok utf8_length_def)
  qed
  from both show "sanitize_crate_filename nfc filename max_bytes \<noteq> Diverges" by blast
  from both show "sanitize_crate_filename nfc filename max_bytes = Returns r \<Longrightarrow>
         int (utf8_length r) \<le> max_bytes + 3" by blast
qed

lemma nfc_laws_identity: "nfc_laws (\<lambda>s. s)"
  by (simp add: nfc_laws_def)

lemma utf8_length_replicate_ascii: "c < 0x80 \<Longrightarrow> utf8_length (replicate n c) = n"
  by (induction n) (simp_all add: utf8_length_def utf8_char_def)

lemma clean_replicate_a: "is_clean_name (\<lambda>s. s) (replicate n 0x61)"
  by (auto simp: is_clean_name_def invisible_chars_def reserved_chars_def list_ex_iff is_surrogate_def)

lemma butlast_replicate_Suc: "butlast (replicate (Suc n) c) = replicate n c"
  by (induction n) simp_all

lemma sanitize_replicate_a:
  "sanitize_crate_filename (\<lambda>s. s) (replicate (Suc n) 0x61) (int n) =
     Returns (replicate n 0x61 @ [ellipsis])"
proof -
  have ns: "\<not> list_ex is_surrogate (replicate k 0x61)" for k
    by (simp add: list_ex_iff is_surrogate_def)
  have len1: "utf8_length (replicate (Suc n) 0x61) = Suc n"
    by (rule utf8_length_replicate_ascii) simp
  have len0: "utf8_length (replicate n 0x61) = n"
    by (rule utf8_length_replicate_ascii) simp
  have "truncate_loop (replicate (Suc n) 0x61) (int n) = truncate_loop (replicate n 0x61) (int n)"
    unfolding truncate_loop_step[OF ns, of "Suc n"] len1 butlast_replicate_Suc by simp
  also have "\<dots> = Some (Inr (replicate n 0x61))"
    unfolding truncate_loop_step[OF ns, of n] len0 by simp
  finally have loop:
    "truncate_loop (replicate (Suc n) 0x61) (int n) = Some (Inr (replicate n 0x61))" .
  have r: "rstrip (replicate n 0x61) = replicate n 0x61"
    by (rule rstrip_id) (cases n, simp_all add: is_whitespace_def)
  have l: "lstrip (replicate n 0x61) = replicate n 0x61"
    by (cases n) (simp_all add: lstrip_def is_whitespace_def)
  have len: "int n < int (utf8_length (replicate (Suc n) 0x61))"
    unfolding len1 by simp
  show ?thesis
    unfolding sanitize_clean[OF clean_replicate_a] using len
    by (simp only: loop r strip_snoc[OF ellipsis_facts(4)] l if_True option.case sum.case)
qed

lemma sanitize_long_name:
  "sanitize_crate_filename (\<lambda>s. s) (replicate 241 0x61) default_max_bytes =
     Returns (replicate 240 0x61 @ [ellipsis])"
proof -
  have a: "(241::nat) = Suc 240" by simp
  have b: "(240::int) = int 240" by simp
  show ?thesis
    unfolding default_max_bytes_def a b by (rule sanitize_replicate_a)
qed

lemma utf8_length_long_name: "utf8_length (replicate 240 0x61 @ [ellipsis]) = 243"
  by (simp add: utf8_length_append utf8_length_replicate_ascii)
    (simp add: utf8_length_def utf8_char_def ellipsis_def)

text \<open>
  Claim C1 (byte budget of the sanitizer). The claim says the result never has more than
  \<open>max_bytes\<close> bytes of UTF-8. The code cuts the name down to the budget first and
  appends the three-byte ellipsis afterwards: for a name of 241 letters \<open>a\<close> and the
  default budget of 240 bytes the result is 240 letters and the ellipsis, 243 bytes.
\<close>

theorem sanitize_exceeds_budget:
  "sanitize_crate_filename (\<lambda>s. s) (replicate 241 0x61) default_max_bytes =
     Returns (replicate 240 0x61 @ [ellipsis]) \<and>
   int (utf8_length (replicate 240 0x61 @ [ellipsis])) > default_max_bytes"
  using sanitize_long_name utf8_length_long_name by (simp add: default_max_bytes_def)

text \<open>
  Claim C8 (the sanitizer is idempotent). With the default byte budget, sanitizing the
  result of the sanitizer gives that result again, for every input: also when the first
  call truncated the name and appended the ellipsis, and when it raised. The
  normalisation is any function with the stated properties of normalisation form C.
\<close>

theorem sanitize_idempotent:
  "nfc_laws nfc \<Longrightarrow>
   sanitize_twice nfc x default_max_bytes = sanitize_crate_filename nfc x default_max_bytes"
  by (rule sanitize_twice_same) (simp_all add: default_max_bytes_def)

theorem sanitize_idempotent_witness:
  "nfc_laws (\<lambda>s. s) \<and>
   sanitize_twice (\<lambda>s. s) (replicate 241 0x61) default_max_bytes =
     Returns (replicate 240 0x61 @ [ellipsis])"
  using sanitize_idempotent[OF nfc_laws_identity, of "replicate 241 0x61"]
  by (simp add: nfc_laws_identity sanitize_long_name)

section \<open>Properties of the path resolver\<close>

lemma join_hd:
  "ns \<noteq> [] \<Longrightarrow> hd ns \<noteq> [] \<Longrightarrow> join sep ns \<noteq> [] \<and> hd (join sep ns) = hd (hd ns)"
  by (induction sep ns rule: join.induct) auto

lemma lstrip_slash_canonical:
  assumes "is_absolute p" "well_formed p"
  shows "lstrip_slash (str_path p) = join [slash] (names p)"
proof (cases "names p")
  case Nil
  then show ?thesis using assms by (simp add: lstrip_slash_def str_path_def)
next
  case (Cons n ns)
  then have "n \<noteq> []" "hd n \<noteq> slash"
    using assms(2) by (cases n; simp add: well_formed_def list_ex_iff)+
  then have "join [slash] (names p) \<noteq> []" "hd (join [slash] (names p)) \<noteq> slash"
    using join_hd[of "names p" "[slash]"] Cons by auto
  then have "dropWhile (\<lambda>c. c = slash) (join [slash] (names p)) = join [slash] (names p)"
    by (cases "join [slash] (names p)") auto
  then show ?thesis using assms(1) by (simp add: lstrip_slash_def str_path_def)
qed

lemma absolute_mode:
  assumes "path_mode \<noteq> ustr ''relative-to-music-root''"
    "path_mode \<noteq> ustr ''relative-to-volume-root''"
  shows "resolve_track_path resolve root path_mode track = lstrip_slash (str_path (resolve track))"
  using assms by (simp add: resolve_track_path_def)

lemma lstrip_slash_no_leading: "lstrip_slash s = [] \<or> hd (lstrip_slash s) \<noteq> slash"
  unfolding lstrip_slash_def using hd_dropWhile[of "\<lambda>c. c = slash" s] by blast

text \<open>
  Claim C2 (absolute mode strips one separator). In \<open>absolute\<close> mode the stored string
  is the canonical path without its leading separator: when the resolved path is an
  absolute, well-formed POSIX path, its string is one \<open>/\<close> followed by the stored
  string (exactly one character is removed), and the stored string never starts with a
  separator.
\<close>

theorem absolute_mode_strips_one_separator:
  assumes "is_absolute (resolve track)" and "well_formed (resolve track)"
  shows "str_path (resolve track) =
           slash # resolve_track_path resolve root (ustr ''absolute'') track \<and>
         resolve_track_path resolve root (ustr ''absolute'') track = tl (str_path (resolve track)) \<and>
         (resolve_track_path resolve root (ustr ''absolute'') track = [] \<or>
          hd (resolve_track_path resolve root (ustr ''absolute'') track) \<noteq> slash)"
proof -
  have m: "resolve_track_path resolve root (ustr ''absolute'') track =
           lstrip_slash (str_path (resolve track))"
    by (rule absolute_mode) (simp_all add: ustr_def)
  have j: "lstrip_slash (str_path (resolve track)) = join [slash] (names (resolve track))"
    using assms by (rule lstrip_slash_canonical)
  have s: "str_path (resolve track) = slash # join [slash] (names (resolve track))"
    using assms(1) by (simp add: str_path_def)
  show ?thesis
    unfolding m using j s lstrip_slash_no_leading[of "str_path (resolve track)"] by simp
qed

theorem absolute_mode_strips_one_separator_witness:
  "is_absolute (Path True [ustr ''Users'', ustr ''dj'', ustr ''a.mp3'']) \<and>
   well_formed (Path True [ustr ''Users'', ustr ''dj'', ustr ''a.mp3'']) \<and>
   str_path (Path True [ustr ''Users'', ustr ''dj'', ustr ''a.mp3'']) = ustr ''/Users/dj/a.mp3'' \<and>
   resolve_track_path (\<lambda>p. p) (Path True [ustr ''Users'']) (ustr ''absolute'')
     (Path True [ustr ''Users'', ustr ''dj'', ustr ''a.mp3'']) = ustr ''Users/dj/a.mp3''"
proof -
  let ?p = "Path True [ustr ''Users'', ustr ''dj'', ustr ''a.mp3'']"
  have a: "is_absolute ?p" by simp
  have b: "well_formed ?p" by (simp add: well_formed_def ustr_def slash_def)
  have c: "str_path ?p = ustr ''/Users/dj/a.mp3''"
    by (simp add: str_path_def ustr_def slash_def)
  have "str_path ?p =
          slash # resolve_track_path (\<lambda>p. p) (Path True [ustr ''Users'']) (ustr ''absolute'') ?p"
    using absolute_mode_strips_one_separator[of "\<lambda>p. p" ?p "Path True [ustr ''Users'']"] a b
    by blast
  then have "resolve_track_path (\<lambda>p. p) (Path True [ustr ''Users'']) (ustr ''absolute'') ?p =
             ustr ''Users/dj/a.mp3''"
    unfolding c by (simp add: ustr_def slash_def)
  then show ?thesis using a b c by blast
qed

section \<open>Properties of the binary crate codec\<close>

lemma make_tag_ok:
  "list_all (\<lambda>c. c < 0x80) tag_name \<Longrightarrow> length data < 0x100000000 \<Longrightarrow>
   make_tag tag_name data = Returns (spec_chunk tag_name data)"
  by (simp add: make_tag_def encode_ascii_def struct_pack_I_def spec_chunk_def)

lemma tag_names_ascii:
  "list_all (\<lambda>c. c < 0x80) (ustr ''vrsn'')" "list_all (\<lambda>c. c < 0x80) (ustr ''otrk'')"
  "list_all (\<lambda>c. c < 0x80) (ustr ''ptrk'')"
  by (simp_all add: ustr_def)

lemma length_ptrk_chunk: "length (spec_chunk (ustr ''ptrk'') data) = length data + 8"
  by (simp add: spec_chunk_def be32_def ustr_def)

lemma track_chunk_ok:
  assumes "encodable (resolve_path track)"
  shows "track_chunks resolve_path (track # rest) chunks =
     track_chunks resolve_path rest
       (chunks @ [spec_chunk (ustr ''otrk'') (spec_chunk (ustr ''ptrk'') (utf16be (resolve_path track)))])"
proof -
  have e: "encode_string (resolve_path track) = Returns (utf16be (resolve_path track))"
    using assms by (simp add: encodable_def encode_string_def)
  have p: "make_tag (ustr ''ptrk'') (utf16be (resolve_path track)) =
           Returns (spec_chunk (ustr ''ptrk'') (utf16be (resolve_path track)))"
    using assms by (intro make_tag_ok tag_names_ascii) (simp add: encodable_def)
  have o: "make_tag (ustr ''otrk'') (spec_chunk (ustr ''ptrk'') (utf16be (resolve_path track))) =
           Returns (spec_chunk (ustr ''otrk'') (spec_chunk (ustr ''ptrk'') (utf16be (resolve_path track))))"
    using assms by (intro make_tag_ok tag_names_ascii) (simp add: encodable_def length_ptrk_chunk)
  show ?thesis
    by (simp only: track_chunks.simps Let_def e p o outcome.case)
qed

lemma track_chunks_ok:
  "list_all (\<lambda>t. encodable (resolve_path t)) ts \<Longrightarrow>
   track_chunks resolve_path ts chunks =
     Returns (chunks @
       map (\<lambda>t. spec_chunk (ustr ''otrk'') (spec_chunk (ustr ''ptrk'') (utf16be (resolve_path t)))) ts)"
proof (induction ts arbitrary: chunks)
  case Nil
  then show ?case by simp
next
  case (Cons t ts)
  from Cons.prems have enc: "encodable (resolve_path t)"
    and rest: "list_all (\<lambda>t. encodable (resolve_path t)) ts" by simp_all
  show ?case
    unfolding track_chunk_ok[of resolve_path t, OF enc] Cons.IH[OF rest] by simp
qed

lemma write_chunks: "fold (\<lambda>chunk file. file @ chunk) chunks written = written @ concat chunks"
  by (induction chunks arbitrary: written) simp_all

lemma version_chunk_ok:
  "encode_string version_string = Returns (utf16be version_string)"
  "make_tag (ustr ''vrsn'') (utf16be version_string) =
     Returns (spec_chunk (ustr ''vrsn'') (utf16be version_string))"
proof -
  show "encode_string version_string = Returns (utf16be version_string)"
    by (simp add: encode_string_def version_string_def ustr_def is_surrogate_def)
  have "length (utf16be version_string) = 56"
    by (simp add: version_string_def ustr_def utf16be_def utf16be_char_def)
  then show "make_tag (ustr ''vrsn'') (utf16be version_string) =
     Returns (spec_chunk (ustr ''vrsn'') (utf16be version_string))"
    by (intro make_tag_ok tag_names_ascii) simp
qed

lemma encodable_a: "encodable (ustr ''a'')"
  by (simp add: encodable_def ustr_def is_surrogate_def utf16be_def utf16be_char_def)

text \<open>
  Claim C4 (layout of the binary crate file). For a crate node whose resolved track
  paths can be encoded, the bytes written are the version chunk followed by one
  \<open>otrk\<close> chunk per track in list order, each holding exactly one \<open>ptrk\<close> chunk
  with the UTF-16 big-endian path, and nothing after the last chunk.
\<close>

theorem crate_binary_layout:
  assumes "list_all (\<lambda>t. encodable (resolve_path t)) (plan_tracks crate_plan)"
  shows "write_crate_binary crate_plan resolve_path =
           Returns (spec_crate_encoding (map resolve_path (plan_tracks crate_plan)))"
  unfolding write_crate_binary_def version_chunk_ok outcome.case
    track_chunks_ok[of resolve_path, OF assms] write_chunks spec_crate_encoding_def
  by (simp add: comp_def)

theorem crate_binary_layout_witness:
  "list_all (\<lambda>t. encodable ((\<lambda>p. join [slash] (names p)) t))
     (plan_tracks (CratePlan (ustr ''House'') (Path True [ustr ''House'']) None
        [Path True [ustr ''a'']] [])) \<and>
   write_crate_binary
     (CratePlan (ustr ''House'') (Path True [ustr ''House'']) None [Path True [ustr ''a'']] [])
     (\<lambda>p. join [slash] (names p)) =
   Returns (ustr ''vrsn'' @ [0, 0, 0, 56] @ utf16be version_string @
            ustr ''otrk'' @ [0, 0, 0, 10] @ ustr ''ptrk'' @ [0, 0, 0, 2] @ [0, 0x61])"
proof -
  let ?plan = "CratePlan (ustr ''House'') (Path True [ustr ''House'']) None [Path True [ustr ''a'']] []"
  have h: "list_all (\<lambda>t. encodable ((\<lambda>p. join [slash] (names p)) t)) (plan_tracks ?plan)"
    using encodable_a by simp
  have len: "length (utf16be version_string) = 56"
    by (simp add: version_string_def ustr_def utf16be_def utf16be_char_def)
  have "spec_crate_encoding (map (\<lambda>p. join [slash] (names p)) (plan_tracks ?plan)) =
        ustr ''vrsn'' @ [0, 0, 0, 56] @ utf16be version_string @
        ustr ''otrk'' @ [0, 0, 0, 10] @ ustr ''ptrk'' @ [0, 0, 0, 2] @ [0, 0x61]"
    by (simp add: spec_crate_encoding_def spec_chunk_def len be32_def)
      (simp add: ustr_def utf16be_def utf16be_char_def)
  then show ?thesis
    using crate_binary_layout[of "\<lambda>p. join [slash] (names p)" ?plan, OF h] h by simp
qed

section \<open>Properties of the tree builder\<close>








section \<open>Properties of the relational writer\<close>

lemma select_crate_id_append:
  "select_crate_id rows parent_id nm = Some i \<Longrightarrow>
   select_crate_id (rows @ extra) parent_id nm = Some i"
  unfolding select_crate_id_def by (induction rows) (auto split: if_splits)

lemma select_crate_id_inserted:
  assumes "select_crate_id rows parent_id nm = None"
    and "row_parent_id r = parent_id" "row_name r = nm" "row_type r = 1"
  shows "select_crate_id (rows @ [r]) parent_id nm = Some (row_id r)"
  using assms unfolding select_crate_id_def by (induction rows) (auto split: if_splits)

lemma select_crate_id_iff:
  "select_crate_id rows parent_id nm \<noteq> None \<longleftrightarrow>
   list_ex (\<lambda>r. row_parent_id r = parent_id \<and> row_name r = nm \<and> row_type r = 1) rows"
  unfolding select_crate_id_def by (induction rows) auto

lemma select_crate_id_row:
  "select_crate_id rows parent_id nm = Some i \<Longrightarrow>
   list_ex (\<lambda>r. row_id r = i \<and> row_parent_id r = parent_id \<and> row_name r = nm \<and> row_type r = 1) rows"
  unfolding select_crate_id_def by (induction rows) (auto split: if_splits)

lemma resolved_append:
  "resolved rows parent_id node \<Longrightarrow> resolved (rows @ extra) parent_id node"
proof (induction rows parent_id node rule: resolved.induct)
  case (1 rows parent_id name folder parent_name tracks children)
  from "1.prems" obtain i where
    i: "select_crate_id rows parent_id name = Some i" "list_all (resolved rows i) children"
    by (auto split: option.splits)
  have "list_all (resolved (rows @ extra) i) children"
    using "1.IH"[OF i(1)] i(2) by (auto simp: list_all_iff)
  then show ?case using select_crate_id_append[OF i(1)] by simp
qed

lemma advances_refl: "advances st st 0"
  by (simp add: advances_def)

lemma advances_trans:
  "advances st st' n \<Longrightarrow> advances st' st'' m \<Longrightarrow> advances st st'' (n + m)"
  unfolding advances_def by (elim conjE exE) (auto)

lemma advances_container:
  "advances st st' n \<Longrightarrow> \<exists>rows. container (db st') = container (db st) @ rows"
  unfolding advances_def by blast

lemma cursor_execute_cases:
  "cursor_execute faults st = Inr st1 \<Longrightarrow> st1 = st\<lparr>executed := Suc (executed st)\<rparr>"
  by (auto simp: cursor_execute_def split: if_splits)

lemma create_found:
  assumes "\<not> faults (executed st)"
    and "select_crate_id (container (db st)) parent_id name = Some existing"
  shows "create_crate_recursive faults clock subcrate_delimiter
           (CratePlan name folder parent_name tracks children) parent_id parent_prefix list_order st =
         (case create_children faults clock subcrate_delimiter children existing
                 (if parent_prefix \<noteq> [] then parent_prefix @ subcrate_delimiter @ name else name) 1
                 (st\<lparr>executed := Suc (executed st), crates_skipped := crates_skipped st + 1\<rparr>) of
            Inr st5 \<Rightarrow> Inr (existing, st5)
          | Inl e \<Rightarrow> Inl e)"
  using assms by (simp add: cursor_execute_def Let_def)

lemma create_missing:
  assumes "\<not> faults (executed st)" "\<not> faults (Suc (executed st))"
    and "select_crate_id (container (db st)) parent_id name = None"
  shows "create_crate_recursive faults clock subcrate_delimiter
           (CratePlan name folder parent_name tracks children) parent_id parent_prefix list_order st =
         (case create_children faults clock subcrate_delimiter children
                 (next_rowid (container (db st)))
                 (if parent_prefix \<noteq> [] then parent_prefix @ subcrate_delimiter @ name else name) 1
                 (st\<lparr>revision := revision st + 1,
                     executed := Suc (Suc (executed st)),
                     db := insert_container
                       \<lparr>row_id = next_rowid (container (db st)), row_revision = revision st + 1,
                        row_parent_id = parent_id, row_name = name, row_type = 1,
                        row_list_order = list_order,
                        row_time_added = clock (Suc (executed st)), row_expanded = 0,
                        row_portable_id = crate_uri
                          (if parent_prefix \<noteq> [] then parent_prefix @ subcrate_delimiter @ name
                           else name)\<rparr> (db st),
                     crates_created := Suc (crates_created st)\<rparr>) of
            Inr st5 \<Rightarrow> Inr (next_rowid (container (db st)), st5)
          | Inl e \<Rightarrow> Inl e)"
  using assms by (simp add: cursor_execute_def Let_def)

lemma create_returnsD:
  assumes "create_crate_recursive faults clock subcrate_delimiter
             (CratePlan name folder parent_name tracks children) parent_id parent_prefix list_order st =
           Inr (i, st')"
  shows "\<exists>st4. advances st st4 1 \<and>
           select_crate_id (container (db st4)) parent_id name = Some i \<and>
           create_children faults clock subcrate_delimiter children i
             (if parent_prefix \<noteq> [] then parent_prefix @ subcrate_delimiter @ name else name) 1 st4 =
           Inr st'"
proof -
  have nf: "\<not> faults (executed st)"
    using assms by (auto simp: cursor_execute_def split: if_splits)
  show ?thesis
  proof (cases "select_crate_id (container (db st)) parent_id name")
    case (Some existing)
    let ?st4 = "st\<lparr>executed := Suc (executed st), crates_skipped := crates_skipped st + 1\<rparr>"
    from assms have "i = existing"
      and "create_children faults clock subcrate_delimiter children existing
             (if parent_prefix \<noteq> [] then parent_prefix @ subcrate_delimiter @ name else name) 1 ?st4 =
           Inr st'"
      unfolding create_found[where faults=faults and st=st, OF nf Some] by (auto split: sum.splits)
    moreover have "advances st ?st4 1" by (simp add: advances_def)
    moreover have "select_crate_id (container (db ?st4)) parent_id name = Some existing"
      using Some by simp
    ultimately show ?thesis by blast
  next
    case None
    have nf2: "\<not> faults (Suc (executed st))"
      using assms nf None by (auto simp: cursor_execute_def Let_def split: if_splits)
    let ?dn = "if parent_prefix \<noteq> [] then parent_prefix @ subcrate_delimiter @ name else name"
    let ?row = "\<lparr>row_id = next_rowid (container (db st)), row_revision = revision st + 1,
                        row_parent_id = parent_id, row_name = name, row_type = 1,
                        row_list_order = list_order,
                        row_time_added = clock (Suc (executed st)), row_expanded = 0,
                        row_portable_id = crate_uri ?dn\<rparr>"
    let ?st4 = "st\<lparr>revision := revision st + 1,
                     executed := Suc (Suc (executed st)),
                     db := insert_container ?row (db st),
                     crates_created := Suc (crates_created st)\<rparr>"
    from assms have "i = next_rowid (container (db st))"
      and "create_children faults clock subcrate_delimiter children (next_rowid (container (db st)))
             ?dn 1 ?st4 = Inr st'"
      unfolding create_missing[where faults=faults and st=st, OF nf nf2 None] by (auto split: sum.splits)
    moreover have "advances st ?st4 1"
      by (simp add: advances_def insert_container_def)
    moreover have "select_crate_id (container (db ?st4)) parent_id name =
                   Some (next_rowid (container (db st)))"
      using select_crate_id_inserted[OF None, of ?row] by (simp add: insert_container_def)
    ultimately show ?thesis by blast
  qed
qed

lemma children_first_run:
  assumes each: "\<And>c parent_id parent_prefix list_order st i st'.
      c \<in> set cs \<Longrightarrow>
      create_crate_recursive faults clock subcrate_delimiter c parent_id parent_prefix list_order st =
        Inr (i, st') \<Longrightarrow>
      advances st st' (count_crates c) \<and> resolved (container (db st')) parent_id c"
  shows "create_children faults clock subcrate_delimiter cs crate_id display_name child_order st =
           Inr st' \<Longrightarrow>
         advances st st' (count_crates_list cs) \<and>
         list_all (resolved (container (db st')) crate_id) cs"
  using each
proof (induction cs arbitrary: child_order st)
  case Nil
  then show ?case by (simp add: advances_refl)
next
  case (Cons c rest)
  from Cons.prems(1) obtain child_id st1 where
    c: "create_crate_recursive faults clock subcrate_delimiter c crate_id display_name child_order st =
          Inr (child_id, st1)"
    and r: "create_children faults clock subcrate_delimiter rest crate_id display_name
              (child_order + 1) st1 = Inr st'"
    by (auto split: sum.splits)
  from Cons.prems(2)[OF _ c] have a1: "advances st st1 (count_crates c)"
    and r1: "resolved (container (db st1)) crate_id c" by simp_all
  from Cons.IH[OF r] Cons.prems(2) have a2: "advances st1 st' (count_crates_list rest)"
    and r2: "list_all (resolved (container (db st')) crate_id) rest" by simp_all
  from advances_container[OF a2] r1 have "resolved (container (db st')) crate_id c"
    by (auto intro: resolved_append)
  with advances_trans[OF a1 a2] r2 show ?case by simp
qed

lemma create_first_run:
  "create_crate_recursive faults clock subcrate_delimiter node parent_id parent_prefix list_order st =
     Inr (i, st') \<Longrightarrow>
   advances st st' (count_crates node) \<and> resolved (container (db st')) parent_id node"
proof (induction node arbitrary: parent_id parent_prefix list_order st i st')
  case (CratePlan name folder parent_name tracks children)
  from create_returnsD[OF CratePlan.prems] obtain st4 where
    a1: "advances st st4 1"
    and sel: "select_crate_id (container (db st4)) parent_id name = Some i"
    and ch: "create_children faults clock subcrate_delimiter children i
               (if parent_prefix \<noteq> [] then parent_prefix @ subcrate_delimiter @ name else name) 1 st4 =
             Inr st'"
    by blast
  from children_first_run[OF _ ch] CratePlan.IH
  have a2: "advances st4 st' (count_crates_list children)"
    and rs: "list_all (resolved (container (db st')) i) children" by blast+
  from advances_container[OF a2] sel
  have "select_crate_id (container (db st')) parent_id name = Some i"
    by (auto intro: select_crate_id_append)
  with rs advances_trans[OF a1 a2] show ?case by simp
qed

lemma roots_first_run:
  "create_roots faults clock subcrate_delimiter cs next_order st = Inr st' \<Longrightarrow>
   advances st st' (count_crates_list cs) \<and> list_all (resolved (container (db st')) 0) cs"
proof (induction cs arbitrary: next_order st)
  case Nil
  then show ?case by (simp add: advances_refl)
next
  case (Cons c rest)
  from Cons.prems obtain crate_id st1 where
    c: "create_crate_recursive faults clock subcrate_delimiter c 0 [] next_order st =
          Inr (crate_id, st1)"
    and r: "create_roots faults clock subcrate_delimiter rest (next_order + 1) st1 = Inr st'"
    by (auto split: sum.splits)
  from create_first_run[OF c] have a1: "advances st st1 (count_crates c)"
    and r1: "resolved (container (db st1)) 0 c" by simp_all
  from Cons.IH[OF r] have a2: "advances st1 st' (count_crates_list rest)"
    and r2: "list_all (resolved (container (db st')) 0) rest" by simp_all
  from advances_container[OF a2] r1 have "resolved (container (db st')) 0 c"
    by (auto intro: resolved_append)
  with advances_trans[OF a1 a2] r2 show ?case by simp
qed

lemma skipped_by_simps:
  "skipped_by 0 st = st"
  "skipped_by m (skipped_by n st) = skipped_by (n + m) st"
  "db (skipped_by n st) = db st"
  "crates_created (skipped_by n st) = crates_created st"
  "crates_skipped (skipped_by n st) = crates_skipped st + n"
  "revision (skipped_by n st) = revision st"
  by (simp_all add: skipped_by_def)

lemma children_rerun:
  assumes each: "\<And>c parent_id parent_prefix list_order st.
      c \<in> set cs \<Longrightarrow> resolved (container (db st)) parent_id c \<Longrightarrow>
      \<exists>i. create_crate_recursive faults clock subcrate_delimiter c parent_id parent_prefix
             list_order st = Inr (i, skipped_by (count_crates c) st)"
  shows "list_all (resolved (container (db st)) crate_id) cs \<Longrightarrow>
         create_children faults clock subcrate_delimiter cs crate_id display_name child_order st =
           Inr (skipped_by (count_crates_list cs) st)"
  using each
proof (induction cs arbitrary: child_order st)
  case Nil
  then show ?case by (simp add: skipped_by_simps)
next
  case (Cons c rest)
  from Cons.prems(1) have rc: "resolved (container (db st)) crate_id c"
    and rr: "list_all (resolved (container (db st)) crate_id) rest" by simp_all
  from Cons.prems(2)[OF _ rc] obtain i where
    c: "create_crate_recursive faults clock subcrate_delimiter c crate_id display_name child_order st =
          Inr (i, skipped_by (count_crates c) st)"
    by auto
  have "create_children faults clock subcrate_delimiter rest crate_id display_name (child_order + 1)
          (skipped_by (count_crates c) st) =
        Inr (skipped_by (count_crates_list rest) (skipped_by (count_crates c) st))"
    using rr Cons.prems(2) by (intro Cons.IH) (simp_all add: skipped_by_simps)
  then show ?case using c by (simp add: skipped_by_simps)
qed

lemma create_rerun:
  assumes nf: "no_faults faults"
  shows "resolved (container (db st)) parent_id node \<Longrightarrow>
         \<exists>i. create_crate_recursive faults clock subcrate_delimiter node parent_id parent_prefix
                list_order st = Inr (i, skipped_by (count_crates node) st)"
proof (induction node arbitrary: parent_id parent_prefix list_order st)
  case (CratePlan name folder parent_name tracks children)
  have nf0: "\<not> faults k" for k using nf by (simp add: no_faults_def)
  from CratePlan.prems obtain existing where
    sel: "select_crate_id (container (db st)) parent_id name = Some existing"
    and rs: "list_all (resolved (container (db st)) existing) children"
    by (auto split: option.splits)
  have st1: "st\<lparr>executed := Suc (executed st), crates_skipped := crates_skipped st + 1\<rparr> =
             skipped_by 1 st"
    by (simp add: skipped_by_def)
  have "create_children faults clock subcrate_delimiter children existing
          (if parent_prefix \<noteq> [] then parent_prefix @ subcrate_delimiter @ name else name) 1
          (skipped_by 1 st) =
        Inr (skipped_by (count_crates_list children) (skipped_by 1 st))"
    using rs CratePlan.IH by (intro children_rerun) (simp_all add: skipped_by_simps)
  then show ?case
    unfolding create_found[where faults=faults and st=st, OF nf0 sel] st1
    by (simp add: skipped_by_simps)
qed

lemma roots_rerun:
  assumes nf: "no_faults faults"
  shows "list_all (resolved (container (db st)) 0) cs \<Longrightarrow>
         create_roots faults clock subcrate_delimiter cs next_order st =
           Inr (skipped_by (count_crates_list cs) st)"
proof (induction cs arbitrary: next_order st)
  case Nil
  then show ?case by (simp add: skipped_by_simps)
next
  case (Cons c rest)
  from Cons.prems have rc: "resolved (container (db st)) 0 c"
    and rr: "list_all (resolved (container (db st)) 0) rest" by simp_all
  from create_rerun[OF nf rc] obtain i where
    c: "create_crate_recursive faults clock subcrate_delimiter c 0 [] next_order st =
          Inr (i, skipped_by (count_crates c) st)"
    by blast
  have "create_roots faults clock subcrate_delimiter rest (next_order + 1)
          (skipped_by (count_crates c) st) =
        Inr (skipped_by (count_crates_list rest) (skipped_by (count_crates c) st))"
    using rr by (intro Cons.IH) (simp add: skipped_by_simps)
  then show ?case using c by (simp add: skipped_by_simps)
qed

lemma children_total:
  assumes each: "\<And>c crate_id display_name child_order st.
      c \<in> set cs \<Longrightarrow>
      \<exists>i st'. create_crate_recursive faults clock subcrate_delimiter c crate_id display_name
                 child_order st = Inr (i, st')"
  shows "\<exists>st'. create_children faults clock subcrate_delimiter cs crate_id display_name child_order st =
           Inr st'"
  using each
proof (induction cs arbitrary: child_order st)
  case Nil
  then show ?case by simp
next
  case (Cons c rest)
  from Cons.prems[of c] obtain i st1 where
    "create_crate_recursive faults clock subcrate_delimiter c crate_id display_name child_order st =
       Inr (i, st1)"
    by auto blast
  moreover from Cons.IH[of "child_order + 1" st1] Cons.prems obtain st' where
    "create_children faults clock subcrate_delimiter rest crate_id display_name (child_order + 1) st1 =
       Inr st'"
    by auto
  ultimately show ?case by simp
qed

lemma create_total:
  assumes nf: "no_faults faults"
  shows "\<exists>i st'. create_crate_recursive faults clock subcrate_delimiter node parent_id parent_prefix
                   list_order st = Inr (i, st')"
proof (induction node arbitrary: parent_id parent_prefix list_order st)
  case (CratePlan name folder parent_name tracks children)
  have nf0: "\<not> faults k" for k using nf by (simp add: no_faults_def)
  have ch: "\<exists>st'. create_children faults clock subcrate_delimiter children cid dn ord st4 = Inr st'"
    for cid dn ord st4
    using CratePlan.IH by (intro children_total) blast
  have wrap: "\<exists>i st'. (case create_children faults clock subcrate_delimiter children cid dn 1 st4 of
                         Inr st5 \<Rightarrow> Inr (cid, st5) | Inl e \<Rightarrow> Inl e) = Inr (i, st')"
    for cid dn st4
    using ch[of cid dn 1 st4] by auto
  show ?case
  proof (cases "select_crate_id (container (db st)) parent_id name")
    case None
    show ?thesis
      unfolding create_missing[where faults=faults and st=st, OF nf0 nf0 None] by (rule wrap)
  next
    case (Some existing)
    show ?thesis
      unfolding create_found[where faults=faults and st=st, OF nf0 Some] by (rule wrap)
  qed
qed

lemma roots_total:
  assumes nf: "no_faults faults"
  shows "\<exists>st'. create_roots faults clock subcrate_delimiter cs next_order st = Inr st'"
proof (induction cs arbitrary: next_order st)
  case Nil
  then show ?case by simp
next
  case (Cons c rest)
  from create_total[OF nf] obtain i st1 where
    "create_crate_recursive faults clock subcrate_delimiter c 0 [] next_order st = Inr (i, st1)"
    by blast
  then show ?case using Cons.IH[of "next_order + 1" st1] by simp
qed

lemma run_transaction_ok:
  assumes "\<not> faults 0" "\<not> faults 1" "\<not> faults 2"
  shows "run_transaction faults clock plan subcrate_delimiter d =
     (case create_roots faults clock subcrate_delimiter (crates plan)
             (select_next_order (container d)) (start_state d) of
        Inr st5 \<Rightarrow>
          (case cursor_execute faults st5 of
             Inr st6 \<Rightarrow>
               cursor_execute faults
                 (st6\<lparr>db := (db st6)\<lparr>serato := map (\<lambda>r. revision st6) (serato (db st6))\<rparr>\<rparr>)
           | Inl e \<Rightarrow> Inl e)
      | Inl e \<Rightarrow> Inl e)"
  using assms unfolding run_transaction_def Let_def
  by (simp add: cursor_execute_def start_state_def start_revision_def eval_nat_numeral)

lemma run_transaction_faults:
  assumes "run_transaction faults clock plan subcrate_delimiter d = Inr st"
  shows "\<not> faults 0 \<and> \<not> faults 1 \<and> \<not> faults 2"
  using assms unfolding run_transaction_def Let_def
  by (cases "faults 0"; cases "faults 1"; cases "faults 2")
    (simp_all add: cursor_execute_def eval_nat_numeral)

lemma run_transaction_returnsD:
  assumes "run_transaction faults clock plan subcrate_delimiter d = Inr st"
  shows "\<exists>st5. create_roots faults clock subcrate_delimiter (crates plan)
                 (select_next_order (container d)) (start_state d) = Inr st5 \<and>
               db st = (db st5)\<lparr>serato := map (\<lambda>r. revision st5) (serato (db st5))\<rparr> \<and>
               crates_created st = crates_created st5 \<and>
               crates_skipped st = crates_skipped st5"
proof -
  from run_transaction_faults[OF assms] have f: "\<not> faults 0" "\<not> faults 1" "\<not> faults 2"
    by simp_all
  from assms obtain st5 where
    r: "create_roots faults clock subcrate_delimiter (crates plan)
          (select_next_order (container d)) (start_state d) = Inr st5"
    unfolding run_transaction_ok[OF f] by (auto split: sum.splits)
  from assms have
    "st = st5\<lparr>db := (db st5)\<lparr>serato := map (\<lambda>r. revision st5) (serato (db st5))\<rparr>,
               executed := Suc (Suc (executed st5))\<rparr>"
    unfolding run_transaction_ok[OF f] r
    by (cases "faults (executed st5)"; cases "faults (Suc (executed st5))")
      (auto simp add: cursor_execute_def)
  with r show ?thesis by simp
qed

lemma run_transaction_commit:
  assumes "run_transaction faults clock plan subcrate_delimiter d = Inr st"
  shows "(\<exists>rows. container (db st) = container d @ rows \<and> length rows = crates_created st) \<and>
         serato (db st) = map (\<lambda>r. start_revision d + int (crates_created st)) (serato d) \<and>
         crates_created st + crates_skipped st = count_crates_list (crates plan) \<and>
         list_all (resolved (container (db st)) 0) (crates plan)"
proof -
  from run_transaction_returnsD[OF assms] obtain st5 where
    r: "create_roots faults clock subcrate_delimiter (crates plan)
          (select_next_order (container d)) (start_state d) = Inr st5"
    and d: "db st = (db st5)\<lparr>serato := map (\<lambda>r. revision st5) (serato (db st5))\<rparr>"
    and c: "crates_created st = crates_created st5" "crates_skipped st = crates_skipped st5"
    by blast
  from roots_first_run[OF r] have a: "advances (start_state d) st5 (count_crates_list (crates plan))"
    and rs: "list_all (resolved (container (db st5)) 0) (crates plan)" by simp_all
  from a obtain rows where
    "container (db st5) = container d @ rows" "crates_created st5 = length rows"
    "revision st5 = start_revision d + int (length rows)" "serato (db st5) = serato d"
    "crates_created st5 + crates_skipped st5 = count_crates_list (crates plan)"
    unfolding advances_def by (auto simp: start_state_def)
  then show ?thesis using d c rs by auto
qed

lemma cursor_execute_no_faults:
  "no_faults faults \<Longrightarrow> cursor_execute faults s = Inr (s\<lparr>executed := Suc (executed s)\<rparr>)"
  by (simp add: cursor_execute_def no_faults_def)

lemma run_transaction_total:
  assumes "no_faults faults"
  shows "\<exists>st. run_transaction faults clock plan subcrate_delimiter d = Inr st"
proof -
  have nf0: "\<not> faults k" for k using assms by (simp add: no_faults_def)
  from roots_total[OF assms] obtain st5 where
    r: "create_roots faults clock subcrate_delimiter (crates plan)
       (select_next_order (container d)) (start_state d) = Inr st5"
    by blast
  show ?thesis
    unfolding run_transaction_ok[OF nf0 nf0 nf0] r cursor_execute_no_faults[OF assms]
    by simp
qed

lemma run_transaction_rerun:
  assumes nf: "no_faults faults"
    and res: "list_all (resolved (container d) 0) (crates plan)"
    and ser: "serato d = map (\<lambda>r. v) rs"
  shows "\<exists>st. run_transaction faults clock plan subcrate_delimiter d = Inr st \<and>
              db st = d \<and> crates_created st = 0 \<and>
              crates_skipped st = count_crates_list (crates plan)"
proof -
  have nf0: "\<not> faults k" for k using nf by (simp add: no_faults_def)
  have r: "create_roots faults clock subcrate_delimiter (crates plan)
          (select_next_order (container d)) (start_state d) =
        Inr (skipped_by (count_crates_list (crates plan)) (start_state d))"
    using res by (intro roots_rerun[OF nf]) (simp add: start_state_def)
  have m: "map (\<lambda>r. start_revision d) (serato d) = serato d"
    unfolding ser by (cases rs) (simp_all add: start_revision_def ser)
  have "d\<lparr>serato := map (\<lambda>r. start_revision d) (serato d)\<rparr> = d"
    unfolding m by simp
  then show ?thesis
    unfolding run_transaction_ok[OF nf0 nf0 nf0] r cursor_execute_no_faults[OF nf]
    by (simp add: skipped_by_def start_state_def)
qed

lemma example_first_run:
  "write_crates_to_sqlite (\<lambda>k. False) (\<lambda>k. 1000) example_plan (ustr ''%%'') (Some example_db) =
     ((2, 0), Some example_db_synced)"
  unfolding write_crates_to_sqlite_def run_transaction_def
  by (simp add: example_plan_def example_db_def example_db_synced_def cursor_execute_def
      select_crate_id_def next_rowid_def select_next_order_def insert_container_def crate_uri_def
      ustr_def Let_def)

lemma example_second_run:
  "write_crates_to_sqlite (\<lambda>k. False) (\<lambda>k. 2000) example_plan (ustr ''%%'')
     (Some example_db_synced) = ((0, 2), Some example_db_synced)"
  unfolding write_crates_to_sqlite_def run_transaction_def
  by (simp add: example_plan_def example_db_synced_def cursor_execute_def
      select_crate_id_def next_rowid_def select_next_order_def insert_container_def crate_uri_def
      ustr_def Let_def)

lemma example_failed_run:
  "write_crates_to_sqlite (\<lambda>k. k = 6) (\<lambda>k. 1000) example_plan (ustr ''%%'') (Some example_db) =
     ((0, 0), Some example_db)"
  unfolding write_crates_to_sqlite_def run_transaction_def
  by (simp add: example_plan_def example_db_def cursor_execute_def
      select_crate_id_def next_rowid_def select_next_order_def insert_container_def crate_uri_def
      ustr_def Let_def)

lemma no_faults_never: "no_faults (\<lambda>k. False)"
  by (simp add: no_faults_def)

text \<open>
  Claim C3 (the relational writer commits all or nothing). A missing database file
  gives the counts \<open>(0, 0)\<close> and no file. When an operation of the run raises, the
  file is left as it was and the counts are \<open>(0, 0)\<close>. When the run reaches the
  commit, the file holds the old rows followed by one new row per created crate, the
  revision of the \<open>serato\<close> table is the starting revision plus the number of created
  crates, and every crate of the plan is counted as created or skipped. A run without
  a failing operation reaches the commit.
\<close>

theorem relational_write_all_or_nothing:
  "write_crates_to_sqlite faults clock plan subcrate_delimiter None = ((0, 0), None) \<and>
   (\<forall>e. run_transaction faults clock plan subcrate_delimiter d = Inl e \<longrightarrow>
      write_crates_to_sqlite faults clock plan subcrate_delimiter (Some d) = ((0, 0), Some d)) \<and>
   (\<forall>st. run_transaction faults clock plan subcrate_delimiter d = Inr st \<longrightarrow>
      write_crates_to_sqlite faults clock plan subcrate_delimiter (Some d) =
        ((crates_created st, crates_skipped st), Some (db st)) \<and>
      (\<exists>rows. container (db st) = container d @ rows \<and> length rows = crates_created st) \<and>
      serato (db st) = map (\<lambda>r. start_revision d + int (crates_created st)) (serato d) \<and>
      crates_created st + crates_skipped st = count_crates_list (crates plan)) \<and>
   (no_faults faults \<longrightarrow>
      (\<exists>st. run_transaction faults clock plan subcrate_delimiter d = Inr st))"
proof (intro conjI allI impI)
  show "write_crates_to_sqlite faults clock plan subcrate_delimiter None = ((0, 0), None)"
    by (simp add: write_crates_to_sqlite_def)
next
  fix e
  assume "run_transaction faults clock plan subcrate_delimiter d = Inl e"
  then show "write_crates_to_sqlite faults clock plan subcrate_delimiter (Some d) =
      ((0, 0), Some d)"
    by (simp add: write_crates_to_sqlite_def)
next
  fix st
  assume r: "run_transaction faults clock plan subcrate_delimiter d = Inr st"
  then show "write_crates_to_sqlite faults clock plan subcrate_delimiter (Some d) =
      ((crates_created st, crates_skipped st), Some (db st))"
    by (simp add: write_crates_to_sqlite_def)
  from run_transaction_commit[OF r]
  show "\<exists>rows. container (db st) = container d @ rows \<and> length rows = crates_created st"
    and "serato (db st) = map (\<lambda>r. start_revision d + int (crates_created st)) (serato d)"
    and "crates_created st + crates_skipped st = count_crates_list (crates plan)"
    by blast+
next
  assume "no_faults faults"
  then show "\<exists>st. run_transaction faults clock plan subcrate_delimiter d = Inr st"
    by (rule run_transaction_total)
qed

theorem relational_write_all_or_nothing_witness:
  "no_faults (\<lambda>k. False) \<and>
   (\<exists>st. run_transaction (\<lambda>k. False) (\<lambda>k. 1000) example_plan (ustr ''%%'') example_db = Inr st \<and>
         db st = example_db_synced \<and> crates_created st = 2 \<and> crates_skipped st = 0) \<and>
   write_crates_to_sqlite (\<lambda>k. False) (\<lambda>k. 1000) example_plan (ustr ''%%'') (Some example_db) =
     ((2, 0), Some example_db_synced) \<and>
   write_crates_to_sqlite (\<lambda>k. k = 6) (\<lambda>k. 1000) example_plan (ustr ''%%'') (Some example_db) =
     ((0, 0), Some example_db)"
proof -
  from relational_write_all_or_nothing[of "\<lambda>k. False" "\<lambda>k. 1000" example_plan "ustr ''%%''"
      example_db] no_faults_never
  obtain st where
    st: "run_transaction (\<lambda>k. False) (\<lambda>k. 1000) example_plan (ustr ''%%'') example_db = Inr st"
    and w: "write_crates_to_sqlite (\<lambda>k. False) (\<lambda>k. 1000) example_plan (ustr ''%%'')
              (Some example_db) = ((crates_created st, crates_skipped st), Some (db st))"
    by blast
  from w have "db st = example_db_synced" "crates_created st = 2" "crates_skipped st = 0"
    unfolding example_first_run by simp_all
  with st show ?thesis
    using no_faults_never example_first_run example_failed_run by blast
qed

text \<open>
  Claim C5 (a second run changes nothing). When no database operation fails, running
  the writer again with the same plan on the database the first run left creates no
  row, counts every crate of the plan as skipped, and leaves the database as it was,
  so the number of rows below any parent is unchanged.
\<close>

theorem relational_write_idempotent:
  assumes "no_faults faults1" and "no_faults faults2"
    and "write_crates_to_sqlite faults1 clock1 plan subcrate_delimiter (Some d) = (counts1, db1)"
  shows "write_crates_to_sqlite faults2 clock2 plan subcrate_delimiter db1 =
           ((0, count_crates_list (crates plan)), db1) \<and>
         (\<exists>d1. db1 = Some d1 \<and>
            (\<forall>d2. snd (write_crates_to_sqlite faults2 clock2 plan subcrate_delimiter db1) = Some d2 \<longrightarrow>
               (\<forall>parent_id. rows_under parent_id d2 = rows_under parent_id d1)))"
proof -
  from run_transaction_total[OF assms(1)] obtain st where
    st: "run_transaction faults1 clock1 plan subcrate_delimiter d = Inr st"
    by blast
  with assms(3) have d1: "db1 = Some (db st)"
    by (auto simp: write_crates_to_sqlite_def)
  from run_transaction_commit[OF st]
  have res: "list_all (resolved (container (db st)) 0) (crates plan)"
    and ser: "serato (db st) = map (\<lambda>r. start_revision d + int (crates_created st)) (serato d)"
    by blast+
  from run_transaction_rerun[OF assms(2) res ser] obtain st2 where
    "run_transaction faults2 clock2 plan subcrate_delimiter (db st) = Inr st2"
    "db st2 = db st" "crates_created st2 = 0"
    "crates_skipped st2 = count_crates_list (crates plan)"
    by blast
  then have "write_crates_to_sqlite faults2 clock2 plan subcrate_delimiter db1 =
           ((0, count_crates_list (crates plan)), db1)"
    unfolding d1 by (simp add: write_crates_to_sqlite_def)
  then show ?thesis using d1 by simp
qed

theorem relational_write_idempotent_witness:
  "no_faults (\<lambda>k. False) \<and>
   write_crates_to_sqlite (\<lambda>k. False) (\<lambda>k. 1000) example_plan (ustr ''%%'') (Some example_db) =
     ((2, 0), Some example_db_synced) \<and>
   write_crates_to_sqlite (\<lambda>k. False) (\<lambda>k. 2000) example_plan (ustr ''%%'')
     (Some example_db_synced) = ((0, 2), Some example_db_synced)"
proof -
  from relational_write_idempotent[OF no_faults_never no_faults_never example_first_run,
      of "\<lambda>k. 2000"]
  have "write_crates_to_sqlite (\<lambda>k. False) (\<lambda>k. 2000) example_plan (ustr ''%%'')
     (Some example_db_synced) = ((0, count_crates_list (crates example_plan)), Some example_db_synced)"
    by blast
  moreover have "count_crates_list (crates example_plan) = 2"
    by (simp add: example_plan_def)
  ultimately show ?thesis
    using no_faults_never example_first_run by simp
qed

lemma create_keeps_rows:
  assumes "create_crate_recursive faults clock subcrate_delimiter node parent_id parent_prefix
             list_order st = Inr (i, st')"
  shows "take (length (container (db st))) (container (db st')) = container (db st)"
proof -
  from create_first_run[OF assms] have "advances st st' (count_crates node)" by simp
  from advances_container[OF this] show ?thesis by auto
qed

lemma resolved_selected:
  "resolved rows parent_id c \<Longrightarrow> select_crate_id rows parent_id (plan_name c) \<noteq> None"
  by (cases c) (auto split: option.splits)

lemma create_found_result:
  assumes sel: "select_crate_id (container (db st)) parent_id name = Some existing"
    and run: "create_crate_recursive faults clock subcrate_delimiter
             (CratePlan name folder parent_name tracks children) parent_id parent_prefix list_order st =
           Inr (i, st')"
  shows "i = existing \<and> crates_skipped st + 1 \<le> crates_skipped st' \<and>
         crates_created st' + crates_skipped st' =
           crates_created st + crates_skipped st + 1 + count_crates_list children \<and>
         list_all (resolved (container (db st')) existing) children \<and>
         list_all (\<lambda>c. select_crate_id (container (db st')) existing (plan_name c) \<noteq> None)
           children \<and>
         (\<exists>rows. container (db st') = container (db st) @ rows \<and>
                 length rows \<le> count_crates_list children \<and>
                 crates_created st' = crates_created st + length rows)"
proof -
  have nf: "\<not> faults (executed st)"
    using run by (auto simp: cursor_execute_def split: if_splits)
  let ?st1 = "st\<lparr>executed := Suc (executed st), crates_skipped := crates_skipped st + 1\<rparr>"
  from run have i: "i = existing"
    and ch: "create_children faults clock subcrate_delimiter children existing
             (if parent_prefix \<noteq> [] then parent_prefix @ subcrate_delimiter @ name else name) 1 ?st1 =
           Inr st'"
    unfolding create_found[where faults=faults and st=st, OF nf sel] by (auto split: sum.splits)
  have "advances ?st1 st' (count_crates_list children) \<and>
        list_all (resolved (container (db st')) existing) children"
    by (rule children_first_run[OF _ ch]) (rule create_first_run)
  then have a: "advances ?st1 st' (count_crates_list children)"
    and r: "list_all (resolved (container (db st')) existing) children" by simp_all
  from a obtain rows where
    rows: "container (db st') = container (db st) @ rows"
      "crates_created st' = crates_created st + length rows"
      "length rows \<le> count_crates_list children"
    and total: "crates_created st' + crates_skipped st' =
      crates_created st + (crates_skipped st + 1) + count_crates_list children"
    unfolding advances_def by auto
  from rows(2,3) total have k: "crates_skipped st + 1 \<le> crates_skipped st'" by linarith
  from r have "list_all (\<lambda>c. select_crate_id (container (db st')) existing (plan_name c) \<noteq> None)
                 children"
    unfolding list_all_iff using resolved_selected by blast
  moreover from total have "crates_created st' + crates_skipped st' =
           crates_created st + crates_skipped st + 1 + count_crates_list children" by simp
  ultimately show ?thesis using i k r rows by blast
qed

lemma example_found_parent:
  "create_crate_recursive (\<lambda>k. False) (\<lambda>k. 2000) (ustr ''%%'')
     (CratePlan (ustr ''M'') (Path True [ustr ''M'']) None []
        [CratePlan (ustr ''A'') (Path True [ustr ''M'', ustr ''A'']) (Some (ustr ''M'')) [] []])
     0 [] 3
     \<lparr>db = parent_only_db, executed = 3, crates_created = 0, crates_skipped = 0, revision = 8\<rparr> =
   Inr (1, \<lparr>db = example_db_synced\<lparr>serato := [8],
                  container :=
                    [\<lparr>row_id = 1, row_revision = 8, row_parent_id = 0, row_name = ustr ''M'',
                      row_type = 1, row_list_order = 1, row_time_added = 1000, row_expanded = 0,
                      row_portable_id = ustr ''crate://M''\<rparr>,
                     \<lparr>row_id = 2, row_revision = 9, row_parent_id = 1, row_name = ustr ''A'',
                      row_type = 1, row_list_order = 1, row_time_added = 2000, row_expanded = 0,
                      row_portable_id = ustr ''crate://M%%A''\<rparr>]\<rparr>,
            executed = 6, crates_created = 1, crates_skipped = 1, revision = 9\<rparr>)"
  by (simp add: parent_only_db_def example_db_synced_def cursor_execute_def select_crate_id_def
      next_rowid_def insert_container_def crate_uri_def ustr_def Let_def)

text \<open>
  Claim C6 (an existing crate is reused, untouched). The lookup finds a row exactly
  when some row has the given parent, the given name and type 1. When it finds one,
  the node costs one operation, the skipped count grows by one, nothing is inserted
  for it, and its children are created below the id found: a call that returns
  returns that id, and afterwards every child has a row whose parent is that id, and so
  on below each child; the rows added are at most one per descendant. Whatever a call
  creates, the rows that were in the table before are still there, unchanged and in
  place.
\<close>

theorem existing_crate_is_reused:
  "(select_crate_id (container (db st)) parent_id name \<noteq> None \<longleftrightarrow>
      list_ex (\<lambda>r. row_parent_id r = parent_id \<and> row_name r = name \<and> row_type r = 1)
        (container (db st))) \<and>
   (\<not> faults (executed st) \<longrightarrow>
    select_crate_id (container (db st)) parent_id name = Some existing \<longrightarrow>
      create_crate_recursive faults clock subcrate_delimiter
        (CratePlan name folder parent_name tracks children) parent_id parent_prefix list_order st =
      (case create_children faults clock subcrate_delimiter children existing
              (if parent_prefix \<noteq> [] then parent_prefix @ subcrate_delimiter @ name else name) 1
              (st\<lparr>executed := Suc (executed st), crates_skipped := crates_skipped st + 1\<rparr>) of
         Inr st5 \<Rightarrow> Inr (existing, st5)
       | Inl e \<Rightarrow> Inl e)) \<and>
   (\<forall>i st'. create_crate_recursive faults clock subcrate_delimiter
        (CratePlan name folder parent_name tracks children) parent_id parent_prefix list_order st =
        Inr (i, st') \<longrightarrow>
      take (length (container (db st))) (container (db st')) = container (db st)) \<and>
   (\<forall>i st'. select_crate_id (container (db st)) parent_id name = Some existing \<longrightarrow>
      create_crate_recursive faults clock subcrate_delimiter
        (CratePlan name folder parent_name tracks children) parent_id parent_prefix list_order st =
        Inr (i, st') \<longrightarrow>
      i = existing \<and> crates_skipped st + 1 \<le> crates_skipped st' \<and>
      crates_created st' + crates_skipped st' =
        crates_created st + crates_skipped st + 1 + count_crates_list children \<and>
      list_all (resolved (container (db st')) existing) children \<and>
      list_all (\<lambda>c. select_crate_id (container (db st')) existing (plan_name c) \<noteq> None)
        children \<and>
      (\<exists>rows. container (db st') = container (db st) @ rows \<and>
              length rows \<le> count_crates_list children \<and>
              crates_created st' = crates_created st + length rows))"
proof (intro conjI allI impI)
  show "select_crate_id (container (db st)) parent_id name \<noteq> None \<longleftrightarrow>
      list_ex (\<lambda>r. row_parent_id r = parent_id \<and> row_name r = name \<and> row_type r = 1)
        (container (db st))"
    by (rule select_crate_id_iff)
next
  assume "\<not> faults (executed st)"
    and "select_crate_id (container (db st)) parent_id name = Some existing"
  then show "create_crate_recursive faults clock subcrate_delimiter
        (CratePlan name folder parent_name tracks children) parent_id parent_prefix list_order st =
      (case create_children faults clock subcrate_delimiter children existing
              (if parent_prefix \<noteq> [] then parent_prefix @ subcrate_delimiter @ name else name) 1
              (st\<lparr>executed := Suc (executed st), crates_skipped := crates_skipped st + 1\<rparr>) of
         Inr st5 \<Rightarrow> Inr (existing, st5)
       | Inl e \<Rightarrow> Inl e)"
    by (rule create_found[where faults=faults and st=st])
next
  fix i st'
  assume "create_crate_recursive faults clock subcrate_delimiter
        (CratePlan name folder parent_name tracks children) parent_id parent_prefix list_order st =
        Inr (i, st')"
  then show "take (length (container (db st))) (container (db st')) = container (db st)"
    by (rule create_keeps_rows)
next
  fix i st'
  assume sel: "select_crate_id (container (db st)) parent_id name = Some existing"
    and run: "create_crate_recursive faults clock subcrate_delimiter
        (CratePlan name folder parent_name tracks children) parent_id parent_prefix list_order st =
        Inr (i, st')"
  from create_found_result[OF sel run]
  show "i = existing" and "crates_skipped st + 1 \<le> crates_skipped st'"
    and "crates_created st' + crates_skipped st' =
        crates_created st + crates_skipped st + 1 + count_crates_list children"
    and "list_all (resolved (container (db st')) existing) children"
    and "list_all (\<lambda>c. select_crate_id (container (db st')) existing (plan_name c) \<noteq> None)
        children"
    and "\<exists>rows. container (db st') = container (db st) @ rows \<and>
              length rows \<le> count_crates_list children \<and>
              crates_created st' = crates_created st + length rows"
    by blast+
qed

theorem existing_crate_is_reused_witness:
  "select_crate_id (container parent_only_db) 0 (ustr ''M'') = Some 1 \<and>
   select_crate_id (container parent_only_db) 1 (ustr ''A'') = None \<and>
   (\<exists>st'. create_crate_recursive (\<lambda>k. False) (\<lambda>k. 2000) (ustr ''%%'')
       (CratePlan (ustr ''M'') (Path True [ustr ''M'']) None []
          [CratePlan (ustr ''A'') (Path True [ustr ''M'', ustr ''A'']) (Some (ustr ''M'')) [] []])
       0 [] 3
       \<lparr>db = parent_only_db, executed = 3, crates_created = 0, crates_skipped = 0, revision = 8\<rparr> =
       Inr (1, st') \<and>
     crates_skipped st' = 1 \<and> crates_created st' = 1 \<and>
     select_crate_id (container (db st')) 1 (ustr ''A'') = Some 2 \<and>
     list_all (\<lambda>c. select_crate_id (container (db st')) 1 (plan_name c) \<noteq> None)
       [CratePlan (ustr ''A'') (Path True [ustr ''M'', ustr ''A'']) (Some (ustr ''M'')) [] []])"
proof -
  let ?st = "\<lparr>db = parent_only_db, executed = 3, crates_created = 0, crates_skipped = 0,
              revision = 8\<rparr>"
  let ?a = "CratePlan (ustr ''A'') (Path True [ustr ''M'', ustr ''A'']) (Some (ustr ''M'')) [] []"
  have s: "select_crate_id (container (db ?st)) 0 (ustr ''M'') = Some 1"
    by (simp add: parent_only_db_def select_crate_id_def ustr_def)
  have n: "select_crate_id (container parent_only_db) 1 (ustr ''A'') = None"
    by (simp add: parent_only_db_def select_crate_id_def ustr_def)
  obtain st' where
    run: "create_crate_recursive (\<lambda>k. False) (\<lambda>k. 2000) (ustr ''%%'')
       (CratePlan (ustr ''M'') (Path True [ustr ''M'']) None [] [?a]) 0 [] 3 ?st = Inr (1, st')"
    and c: "crates_skipped st' = 1" "crates_created st' = 1"
      "select_crate_id (container (db st')) 1 (ustr ''A'') = Some 2"
    unfolding example_found_parent
    by (simp add: example_db_synced_def select_crate_id_def ustr_def)
  from existing_crate_is_reused[of ?st 0 "ustr ''M''" "\<lambda>k. False" 1 "\<lambda>k. 2000" "ustr ''%%''"
      "Path True [ustr ''M'']" None "[]" "[?a]" "[]" 3] s run
  have "list_all (\<lambda>c. select_crate_id (container (db st')) 1 (plan_name c) \<noteq> None) [?a]"
    by blast
  with s n run c show ?thesis by auto
qed

section \<open>Properties of the orchestrator\<close>

lemma write_recursive_no_skip:
  "write_crate_recursive env library root overwrite subcrate_delimiter path_mode node parent_prefix st =
     (r, st') \<Longrightarrow> overwrite \<Longrightarrow> n_skipped st' = n_skipped st"
  "write_crate_children env library root overwrite subcrate_delimiter path_mode cs crate_filename st =
     (r, st') \<Longrightarrow> overwrite \<Longrightarrow> n_skipped st' = n_skipped st"
proof (induction env library root overwrite subcrate_delimiter path_mode node parent_prefix st
    and env library root overwrite subcrate_delimiter path_mode cs crate_filename st
    arbitrary: r st' and r st'
    rule: write_crate_recursive_write_crate_children.induct)
  case (1 env library root overwrite subcrate_delimiter path_mode name folder parent_name tracks
      children parent_prefix st)
  show ?case
  proof (cases "sanitize_crate_filename (env_nfc env)
             (if parent_prefix \<noteq> [] then parent_prefix @ subcrate_delimiter @ name else name)
             default_max_bytes")
    case (Returns crate_filename)
    note s = Returns
    show ?thesis
    proof (cases "library (map (resolve_track_path (env_resolve env) root path_mode) tracks)")
      case (Returns content)
      with "1.IH"(2)[OF s refl _ Returns] "1.prems" s show ?thesis
        by (simp add: Let_def)
    next
      case (Raises e)
      note l = Raises
      show ?thesis
      proof (cases "write_crate_binary (CratePlan name folder parent_name tracks children)
                      (resolve_track_path (env_resolve env) root path_mode)")
        case (Returns content)
        with "1.IH"(3)[OF s refl _ l Returns] "1.prems" s l show ?thesis
          by (simp add: Let_def)
      next
        case (Raises e2)
        with "1.IH"(4)[OF s refl _ l Raises] "1.prems" s l show ?thesis
          by (simp add: Let_def)
      next
        case Diverges
        with "1.prems" s l show ?thesis by (simp add: Let_def)
      qed
    next
      case Diverges
      with "1.prems" s show ?thesis by (simp add: Let_def)
    qed
  next
    case (Raises e)
    with "1.prems" show ?thesis by simp
  next
    case Diverges
    with "1.prems" show ?thesis by simp
  qed
next
  case (2 env library root overwrite subcrate_delimiter path_mode crate_filename st)
  then show ?case by simp
next
  case (3 env library root overwrite subcrate_delimiter path_mode child rest crate_filename st)
  obtain r1 st1 where
    c: "write_crate_recursive env library root overwrite subcrate_delimiter path_mode child
          crate_filename st = (r1, st1)"
    by (cases "write_crate_recursive env library root overwrite subcrate_delimiter path_mode child
          crate_filename st")
  from "3.IH"(1)[OF c "3.prems"(2)] have k: "n_skipped st1 = n_skipped st" .
  show ?case
  proof (cases r1)
    case (Returns u)
    from "3.prems"(1) c Returns
    have "write_crate_children env library root overwrite subcrate_delimiter path_mode rest
            crate_filename st1 = (r, st')"
      by simp
    from "3.IH"(2)[OF c[symmetric] Returns this "3.prems"(2)] k show ?thesis by simp
  next
    case (Raises e)
    with "3.prems"(1) c k show ?thesis by simp
  next
    case Diverges
    with "3.prems"(1) c k show ?thesis by simp
  qed
qed

lemma write_roots_no_skip:
  "write_crate_roots env library root overwrite subcrate_delimiter path_mode cs st = (r, st') \<Longrightarrow>
   overwrite \<Longrightarrow> n_skipped st' = n_skipped st"
proof (induction cs arbitrary: st)
  case Nil
  then show ?case by simp
next
  case (Cons c rest)
  obtain r1 st1 where
    c: "write_crate_recursive env library root overwrite subcrate_delimiter path_mode c [] st =
          (r1, st1)"
    by (cases "write_crate_recursive env library root overwrite subcrate_delimiter path_mode c [] st")
  from write_recursive_no_skip(1)[OF c Cons.prems(2)] have k: "n_skipped st1 = n_skipped st" .
  show ?case
  proof (cases r1)
    case (Returns u)
    with Cons.prems(1) c
    have "write_crate_roots env library root overwrite subcrate_delimiter path_mode rest st1 =
            (r, st')" by simp
    from Cons.IH[OF this Cons.prems(2)] k show ?thesis by simp
  next
    case (Raises e)
    with Cons.prems(1) c k show ?thesis by simp
  next
    case Diverges
    with Cons.prems(1) c k show ?thesis by simp
  qed
qed

lemma write_overwrite_never_skips:
  assumes "write_crates_with_serato_crate env plan True subcrate_delimiter path_mode fs =
             (Returns (c, s), fs')"
  shows "s = 0"
proof (cases "env_library env")
  case None
  with assms show ?thesis by (simp add: write_crates_with_serato_crate_def)
next
  case (Some library)
  let ?st = "\<lparr>subcrates_dir = (case fs_subcrates (mkdir_subcrates fs) of None \<Rightarrow> [] | Some dir \<Rightarrow> dir),
              n_created = 0, n_skipped = 0\<rparr>"
  obtain r st1 where
    w: "write_crate_roots env library (music_root plan) True subcrate_delimiter path_mode
          (crates plan) ?st = (r, st1)"
    by (cases "write_crate_roots env library (music_root plan) True subcrate_delimiter path_mode
          (crates plan) ?st")
  from write_roots_no_skip[OF w] have "n_skipped st1 = 0" by simp
  with assms Some w show ?thesis
    by (cases r) (simp_all add: write_crates_with_serato_crate_def Let_def)
qed

lemma write_keeps_backups:
  "fs_backups (snd (write_crates_with_serato_crate env plan overwrite subcrate_delimiter path_mode fs)) =
   fs_backups fs"
  by (simp add: write_crates_with_serato_crate_def Let_def mkdir_subcrates_def
      split: option.splits prod.splits outcome.splits)

lemma clean_keeps_backups:
  "fs_backups (snd (clean_existing_crates undeletable fs)) = fs_backups fs"
  by (simp add: clean_existing_crates_def split: option.splits)

lemma mkdir_keeps_backups: "fs_backups (mkdir_subcrates fs) = fs_backups fs"
  by (simp add: mkdir_subcrates_def split: option.splits)

lemma map_of_snoc_fresh:
  "\<not> list_ex (\<lambda>b. fst b = k) bs \<Longrightarrow> map_of (bs @ [(k, v)]) k = Some v"
  by (induction bs) auto

lemma backup_holds_subcrates:
  assumes "backup_subcrates timestamp fs = (Returns backup_path, fs1)"
    and "fs_subcrates fs = Some dir"
  shows "map_of (fs_backups fs1) (backup_name timestamp) = Some dir \<and> fs_subcrates fs1 = Some dir"
  using assms
  by (auto simp: backup_subcrates_def map_of_snoc_fresh simp del: map_of_append split: if_splits)

lemma backup_fails_unchanged:
  "backup_subcrates timestamp fs = (Raises e, fs1) \<Longrightarrow> fs1 = fs"
  by (auto simp: backup_subcrates_def split: option.splits if_splits)

lemma backup_never_diverges: "fst (backup_subcrates timestamp fs) \<noteq> Diverges"
  by (simp add: backup_subcrates_def split: option.splits)

lemma execute_sync_clean_unfold:
  assumes "backup_subcrates (env_timestamp env) fs = (Returns backup_path, fs1)"
  shows "execute_sync env plan overwrite True subcrate_delimiter path_mode fs =
     (case write_crates_with_serato_crate env plan True subcrate_delimiter path_mode
             (snd (clean_existing_crates (env_undeletable env) (mkdir_subcrates fs1))) of
        (Returns counts, fs4) \<Rightarrow> (Returns True, fs4)
      | (Raises e, fs4) \<Rightarrow> (Raises e, fs4)
      | (Diverges, fs4) \<Rightarrow> (Diverges, fs4))"
  using assms
  by (simp add: execute_sync_def Let_def split: prod.splits outcome.splits)

lemma execute_sync_result:
  assumes "execute_sync env plan overwrite clean subcrate_delimiter path_mode fs = (Returns b, fs')"
  shows "b"
  using assms
  by (auto simp: execute_sync_def Let_def split: prod.splits outcome.splits)

lemma execute_sync_backups:
  assumes "execute_sync env plan overwrite True subcrate_delimiter path_mode fs = (Returns b, fs')"
    and "fs_subcrates fs = Some dir"
  shows "map_of (fs_backups fs') (backup_name (env_timestamp env)) = Some dir"
proof -
  obtain r fs1 where bk: "backup_subcrates (env_timestamp env) fs = (r, fs1)"
    by (cases "backup_subcrates (env_timestamp env) fs")
  from assms(1) bk obtain backup_path where r: "r = Returns backup_path"
    by (cases r) (simp_all add: execute_sync_def)
  let ?fs3 = "snd (clean_existing_crates (env_undeletable env) (mkdir_subcrates fs1))"
  from assms(1) have
    "fs' = snd (write_crates_with_serato_crate env plan True subcrate_delimiter path_mode ?fs3)"
    unfolding execute_sync_clean_unfold[OF bk[unfolded r]]
    by (auto split: prod.splits outcome.splits)
  then have "fs_backups fs' = fs_backups fs1"
    by (simp add: write_keeps_backups clean_keeps_backups mkdir_keeps_backups)
  with backup_holds_subcrates[OF bk[unfolded r] assms(2)] show ?thesis by simp
qed

lemma execute_sync_backup_fails:
  assumes "fst (backup_subcrates (env_timestamp env) fs) = Raises e"
  shows "execute_sync env plan overwrite clean subcrate_delimiter path_mode fs = (Raises e, fs)"
proof -
  obtain fs1 where bk: "backup_subcrates (env_timestamp env) fs = (Raises e, fs1)"
    using assms by (cases "backup_subcrates (env_timestamp env) fs") simp
  from backup_fails_unchanged[OF bk] bk show ?thesis
    by (simp add: execute_sync_def)
qed

lemma execute_sync_overwrite_irrelevant:
  "execute_sync env plan overwrite True subcrate_delimiter path_mode fs =
   execute_sync env plan True True subcrate_delimiter path_mode fs"
  by (auto simp: execute_sync_def Let_def split: prod.splits outcome.splits)

lemma sanitize_short_names:
  "sanitize_crate_filename (\<lambda>s. s) (ustr ''M'') default_max_bytes = Returns (ustr ''M'')"
  "sanitize_crate_filename (\<lambda>s. s) (ustr ''M'' @ ustr ''%%'' @ ustr ''A'') default_max_bytes =
     Returns (ustr ''M%%A'')"
  by (simp_all add: sanitize_crate_filename_def ustr_def invisible_chars_def reserved_chars_def
      remove_char_def replace_char_def encode_utf8_def utf8_char_def is_surrogate_def
      strip_def rstrip_def lstrip_def is_whitespace_def hyphen_def default_max_bytes_def)

lemma example_clean_sync:
  "execute_sync working_env example_plan False True (ustr ''%%'') (ustr ''absolute'') old_fs =
     (Returns True,
      \<lparr>fs_subcrates = Some [(ustr ''M.crate'', [1]), (ustr ''M%%A.crate'', [1])],
       fs_backups = [(ustr ''Subcrates.BACKUP.20240101_120000'',
                      [(ustr ''M.crate'', [0]), (ustr ''Old.crate'', [0])])]\<rparr>)"
proof -
  have n: "ustr ''M.crate'' = ustr ''M'' @ ustr ''.crate''"
    "ustr ''M%%A.crate'' = ustr ''M%%A'' @ ustr ''.crate''"
    "ustr ''M%%A'' \<noteq> []" "ustr ''M'' \<noteq> []"
    by (simp_all add: ustr_def)
  have b: "backup_subcrates (env_timestamp working_env) old_fs =
     (Returns (Some (ustr ''Subcrates.BACKUP.20240101_120000'')),
      old_fs\<lparr>fs_backups := [(ustr ''Subcrates.BACKUP.20240101_120000'',
                      [(ustr ''M.crate'', [0]), (ustr ''Old.crate'', [0])])]\<rparr>)"
    by (simp add: backup_subcrates_def working_env_def old_fs_def backup_name_def ustr_def)
  have c: "snd (clean_existing_crates (env_undeletable working_env)
             (mkdir_subcrates (old_fs\<lparr>fs_backups := bk\<rparr>))) =
           \<lparr>fs_subcrates = Some [(ustr ''M.crate'', [0])], fs_backups = bk\<rparr>" for bk
    by (simp add: clean_existing_crates_def mkdir_subcrates_def working_env_def old_fs_def
        ends_with_def ustr_def)
  have w: "write_crates_with_serato_crate working_env example_plan True (ustr ''%%'')
             (ustr ''absolute'') \<lparr>fs_subcrates = Some [(ustr ''M.crate'', [0])], fs_backups = bk\<rparr> =
           (Returns (2, 0),
            \<lparr>fs_subcrates = Some [(ustr ''M.crate'', [1]), (ustr ''M%%A.crate'', [1])],
             fs_backups = bk\<rparr>)" for bk
    unfolding write_crates_with_serato_crate_def
    by (simp add: working_env_def example_plan_def mkdir_subcrates_def Let_def
        sanitize_short_names n(3,4) write_file_def file_exists_def)
      (simp add: ustr_def)
  show ?thesis
    unfolding execute_sync_clean_unfold[OF b] c w by simp
qed

text \<open>
  Claim C7 (clean runs after the backup and forces overwriting). With the clean flag
  set, the caller's overwrite flag has no effect. When the backup raises, the whole
  call raises and the file system is as it was: nothing has been deleted. When the
  backup returns, the crate files are deleted from the state the backup left and the
  write step runs on the result with overwriting on; the backup folder of a returned
  call holds every file the \<open>Subcrates\<close> folder had before. A write step with
  overwriting on skips nothing.
\<close>

theorem clean_follows_backup_and_forces_overwrite:
  "execute_sync env plan overwrite True subcrate_delimiter path_mode fs =
     execute_sync env plan True True subcrate_delimiter path_mode fs \<and>
   (\<forall>e. fst (backup_subcrates (env_timestamp env) fs) = Raises e \<longrightarrow>
      execute_sync env plan overwrite True subcrate_delimiter path_mode fs = (Raises e, fs)) \<and>
   (\<forall>backup_path fs1.
      backup_subcrates (env_timestamp env) fs = (Returns backup_path, fs1) \<longrightarrow>
      execute_sync env plan overwrite True subcrate_delimiter path_mode fs =
        (case write_crates_with_serato_crate env plan True subcrate_delimiter path_mode
                (snd (clean_existing_crates (env_undeletable env) (mkdir_subcrates fs1))) of
           (Returns counts, fs4) \<Rightarrow> (Returns True, fs4)
         | (Raises e, fs4) \<Rightarrow> (Raises e, fs4)
         | (Diverges, fs4) \<Rightarrow> (Diverges, fs4))) \<and>
   (\<forall>b fs' dir.
      execute_sync env plan overwrite True subcrate_delimiter path_mode fs = (Returns b, fs') \<longrightarrow>
      fs_subcrates fs = Some dir \<longrightarrow>
      map_of (fs_backups fs') (backup_name (env_timestamp env)) = Some dir) \<and>
   (\<forall>c s fs0 fs1.
      write_crates_with_serato_crate env plan True subcrate_delimiter path_mode fs0 =
        (Returns (c, s), fs1) \<longrightarrow> s = 0)"
  using execute_sync_overwrite_irrelevant[of env plan overwrite subcrate_delimiter path_mode fs]
    execute_sync_backup_fails[of env fs _ plan overwrite True subcrate_delimiter path_mode]
    execute_sync_clean_unfold[of env fs _ _ plan overwrite subcrate_delimiter path_mode]
    execute_sync_backups[of env plan overwrite subcrate_delimiter path_mode fs]
    write_overwrite_never_skips[of env plan subcrate_delimiter path_mode]
  by blast

theorem clean_follows_backup_and_forces_overwrite_witness:
  "fs_subcrates old_fs = Some [(ustr ''M.crate'', [0]), (ustr ''Old.crate'', [0])] \<and>
   execute_sync working_env example_plan False True (ustr ''%%'') (ustr ''absolute'') old_fs =
     (Returns True,
      \<lparr>fs_subcrates = Some [(ustr ''M.crate'', [1]), (ustr ''M%%A.crate'', [1])],
       fs_backups = [(ustr ''Subcrates.BACKUP.20240101_120000'',
                      [(ustr ''M.crate'', [0]), (ustr ''Old.crate'', [0])])]\<rparr>) \<and>
   map_of [(ustr ''Subcrates.BACKUP.20240101_120000'',
            [(ustr ''M.crate'', [0::nat]), (ustr ''Old.crate'', [0])])]
     (backup_name (env_timestamp working_env)) =
     Some [(ustr ''M.crate'', [0]), (ustr ''Old.crate'', [0])]"
proof -
  have d: "fs_subcrates old_fs = Some [(ustr ''M.crate'', [0]), (ustr ''Old.crate'', [0])]"
    by (simp add: old_fs_def)
  from clean_follows_backup_and_forces_overwrite[of working_env example_plan False "ustr ''%%''"
      "ustr ''absolute''" old_fs] example_clean_sync d
  have "map_of (fs_backups
          \<lparr>fs_subcrates = Some [(ustr ''M.crate'', [1]), (ustr ''M%%A.crate'', [1])],
           fs_backups = [(ustr ''Subcrates.BACKUP.20240101_120000'',
                      [(ustr ''M.crate'', [0]), (ustr ''Old.crate'', [0])])]\<rparr>)
          (backup_name (env_timestamp working_env)) =
        Some [(ustr ''M.crate'', [0]), (ustr ''Old.crate'', [0])]"
    by blast
  then show ?thesis using d example_clean_sync by simp
qed

lemma example_failing_sync:
  "execute_sync failing_env surrogate_plan False False (ustr ''%%'') (ustr ''absolute'') empty_fs =
     (Returns True, \<lparr>fs_subcrates = Some [], fs_backups = []\<rparr>)"
proof -
  have e: "encode_string [0xD800] = Raises UnicodeEncodeError"
    by (simp add: encode_string_def is_surrogate_def)
  have r: "resolve_track_path (\<lambda>p. p) (Path True [ustr ''M'']) (ustr ''absolute'')
             (Path True [[0xD800]]) = [0xD800]"
    by (simp add: resolve_track_path_def lstrip_slash_def str_path_def slash_def ustr_def)
  have v: "write_crate_binary (CratePlan (ustr ''M'') (Path True [ustr ''M'']) None
                [Path True [[0xD800]]] [])
             (resolve_track_path (\<lambda>p. p) (Path True [ustr ''M'']) (ustr ''absolute'')) =
           Raises UnicodeEncodeError"
    by (simp add: write_crate_binary_def version_chunk_ok r e)
  show ?thesis
    unfolding execute_sync_def write_crates_with_serato_crate_def
    by (simp add: failing_env_def surrogate_plan_def empty_fs_def backup_subcrates_def
        mkdir_subcrates_def Let_def sanitize_short_names v file_exists_def)
qed

text \<open>
  Claim C10 (the success flag is constant). Whenever \<open>execute_sync\<close> returns, it
  returns \<open>True\<close>: also when the library and the binary fallback failed for every
  crate and nothing was written.
\<close>

theorem execute_sync_always_reports_success:
  "execute_sync env plan overwrite clean subcrate_delimiter path_mode fs = (Returns b, fs') \<Longrightarrow> b"
  by (rule execute_sync_result)

theorem execute_sync_always_reports_success_witness:
  "execute_sync failing_env surrogate_plan False False (ustr ''%%'') (ustr ''absolute'') empty_fs =
     (Returns True, \<lparr>fs_subcrates = Some [], fs_backups = []\<rparr>)"
  using execute_sync_always_reports_success[OF example_failing_sync] example_failing_sync
  by simp

end
